theory Spec2Isabelle
  imports Main "HOL-Library.Word"
begin

section \<open>Data model of chain.go\<close>

text \<open>
  The proxy chain of \<^verbatim>\<open>chain.go\<close>.  A \<^verbatim>\<open>Chain\<close> holds the \<^verbatim>\<open>isRoute\<close> marker, the
  retry budget and the list of node groups.  \<^verbatim>\<open>Retries\<close> is a Go \<^verbatim>\<open>int\<close>, taken here at
  its 64-bit width: \<^verbatim>\<open>c.Retries+1\<close> wraps around as Go's signed addition does.

  \<^verbatim>\<open>Node\<close>, \<^verbatim>\<open>NodeGroup\<close>, \<^verbatim>\<open>Client\<close> and the dial options are declared in files next to
  \<^verbatim>\<open>chain.go\<close>; the types below carry the fields that \<^verbatim>\<open>chain.go\<close> reads and writes.
  \<^verbatim>\<open>Node.Client\<close> is a pointer and may be nil (\<^verbatim>\<open>Node{}\<close> has none).  Connections and
  the errors of the collaborators are opaque handles.  \<^verbatim>\<open>Transporter.Multiplex()\<close> is a
  fixed property of the transport, kept as a field.

  Chains and groups are passed by pointer in the source.  A nil \<^verbatim>\<open>*Chain\<close> is \<open>None\<close>
  where a method checks for it (\<^verbatim>\<open>IsEmpty\<close>, \<^verbatim>\<open>AddNode\<close>) or may meet it; the groups of a
  chain are taken as non-nil.  \<^verbatim>\<open>selectRoute\<close> never updates a route after it has sealed
  it in a dial option, and hops are copied by value, so values stand for the pointers.
\<close>

type_synonym conn = nat

datatype error = ErrEmptyChain | ErrExternal nat

type_synonym handshake_option = nat

datatype transporter = MkTransporter (transport_id: nat) (Multiplex: bool)

datatype client = MkClient (Connector: nat) (Transporter: transporter)

datatype chain = Chain (isRoute: bool) (Retries: "64 word") (nodeGroups: "node_group list")
  and node_group = NodeGroup (nodes: "node list") (Options: "nat list")
  and node = Node (ID: nat) (Addr: string) (DialOptions: "dial_option list")
      (HandshakeOptions: "handshake_option list") (Client: "client option")
  and dial_option = ChainDialOption chain | TimeoutDialOption nat

text \<open>A Go function that dereferences nil or indexes past the end of a slice panics.\<close>

datatype 'a res = Ret 'a | Panic

subsection \<open>The collaborators and the calls made to them\<close>

text \<open>
  Every call that \<^verbatim>\<open>chain.go\<close> makes to a collaborator is recorded, in order, with its
  arguments.
\<close>

datatype event =
    EvNext node_group
  | EvDial node
  | EvHandshake node conn
  | EvConnect node conn string
  | EvClose conn
  | EvMarkDead node
  | EvResetDead node
  | EvNetDial string string nat
  | EvLog "string list"

text \<open>
  The collaborators are parameters: each acts on an external state \<open>'w\<close> (selection
  cursors, health counters, the network).  A call that returns \<^verbatim>\<open>(value, error)\<close> is
  given as a sum, \<open>Inl\<close> the non-nil error: \<^verbatim>\<open>chain.go\<close> reads the value only when the
  error is nil.  \<^verbatim>\<open>DialTimeout\<close> and \<^verbatim>\<open>Debug\<close> are the package variables of those names.
\<close>

record 'w env =
  Group_Next :: "node_group \<Rightarrow> 'w \<Rightarrow> (error + node) \<times> 'w"
  Client_Dial :: "client \<Rightarrow> string \<Rightarrow> dial_option list \<Rightarrow> 'w \<Rightarrow> (error + conn) \<times> 'w"
  Client_Handshake :: "client \<Rightarrow> conn \<Rightarrow> handshake_option list \<Rightarrow> 'w \<Rightarrow> (error + conn) \<times> 'w"
  Client_Connect :: "client \<Rightarrow> conn \<Rightarrow> string \<Rightarrow> 'w \<Rightarrow> (error + conn) \<times> 'w"
  Conn_Close :: "conn \<Rightarrow> 'w \<Rightarrow> 'w"
  Node_MarkDead :: "node \<Rightarrow> 'w \<Rightarrow> 'w"
  Node_ResetDead :: "node \<Rightarrow> 'w \<Rightarrow> 'w"
  Node_String :: "node \<Rightarrow> string"
  net_DialTimeout :: "string \<Rightarrow> string \<Rightarrow> nat \<Rightarrow> 'w \<Rightarrow> (error + conn) \<times> 'w"
  DialTimeout :: nat
  Debug :: bool

record 'w world =
  ext :: 'w
  trace :: "event list"

definition call :: "event \<Rightarrow> ('w \<Rightarrow> 'a \<times> 'w) \<Rightarrow> 'w world \<Rightarrow> 'a \<times> 'w world" where
  "call ev f w = (case f (ext w) of (r, x) \<Rightarrow> (r, \<lparr>ext = x, trace = trace w @ [ev]\<rparr>))"

definition effect :: "event \<Rightarrow> ('w \<Rightarrow> 'w) \<Rightarrow> 'w world \<Rightarrow> 'w world" where
  "effect ev f w = \<lparr>ext = f (ext w), trace = trace w @ [ev]\<rparr>"

definition MarkDead :: "'w env \<Rightarrow> node \<Rightarrow> 'w world \<Rightarrow> 'w world" where
  "MarkDead E n = effect (EvMarkDead n) (Node_MarkDead E n)"

definition ResetDead :: "'w env \<Rightarrow> node \<Rightarrow> 'w world \<Rightarrow> 'w world" where
  "ResetDead E n = effect (EvResetDead n) (Node_ResetDead E n)"

definition Close :: "'w env \<Rightarrow> conn \<Rightarrow> 'w world \<Rightarrow> 'w world" where
  "Close E cn = effect (EvClose cn) (Conn_Close E cn)"

text \<open>A Go result pair \<^verbatim>\<open>(conn, err)\<close>: either component may be nil.\<close>

type_synonym conn_err = "conn option \<times> error option"

definition pair_of :: "error + 'a \<Rightarrow> 'a option \<times> error option" where
  "pair_of r = (case r of Inl e \<Rightarrow> (None, Some e) | Inr v \<Rightarrow> (Some v, None))"

section \<open>Chains\<close>

text \<open>
  Modelled from the spec: \<^verbatim>\<open>NewNodeGroup\<close> (declared beside \<^verbatim>\<open>Node\<close>, not in \<^verbatim>\<open>chain.go\<close>)
  builds a group holding the given hops in order, everything else at its zero value.
\<close>

definition NewNodeGroup :: "node list \<Rightarrow> node_group" where
  "NewNodeGroup ns = NodeGroup ns []"

text \<open>
  Modelled from the spec: \<^verbatim>\<open>NodeGroup.Nodes\<close> lists the candidates of a group in order, and
  \<^verbatim>\<open>Node.Clone\<close> is a value copy of the hop.
\<close>

definition group_Nodes :: "node_group \<Rightarrow> node list" where
  "group_Nodes g = nodes g"

definition Clone :: "node \<Rightarrow> node" where
  "Clone n = n"

definition NewChain :: "node list \<Rightarrow> chain" where
  "NewChain ns = Chain False 0 (map (\<lambda>n. NewNodeGroup [n]) ns)"

definition newRoute :: "node list \<Rightarrow> chain" where
  "newRoute ns = (case NewChain ns of Chain r k gs \<Rightarrow> Chain True k gs)"

definition Nodes :: "chain \<Rightarrow> node list" where
  "Nodes c = concat (map (\<lambda>g. case group_Nodes g of [] \<Rightarrow> [] | n # _ \<Rightarrow> [n]) (nodeGroups c))"

definition IsEmpty :: "chain option \<Rightarrow> bool" where
  "IsEmpty c = (case c of None \<Rightarrow> True | Some ch \<Rightarrow> length (nodeGroups ch) = 0)"

definition LastNode :: "chain option \<Rightarrow> node res" where
  "LastNode c =
     (if IsEmpty c then Ret (Node 0 [] [] [] None)
      else case nodes (last (nodeGroups (the c))) of
             [] \<Rightarrow> Panic
           | n # _ \<Rightarrow> Ret (Clone n))"

definition LastNodeGroup :: "chain option \<Rightarrow> node_group option" where
  "LastNodeGroup c = (if IsEmpty c then None else Some (last (nodeGroups (the c))))"

definition AddNode :: "chain option \<Rightarrow> node list \<Rightarrow> chain option" where
  "AddNode c ns =
     (case c of
        None \<Rightarrow> None
      | Some (Chain r k gs) \<Rightarrow> Some (Chain r k (gs @ map (\<lambda>n. NewNodeGroup [n]) ns)))"

definition AddNodeGroup :: "chain option \<Rightarrow> node_group list \<Rightarrow> chain option" where
  "AddNodeGroup c groups =
     (case c of
        None \<Rightarrow> None
      | Some (Chain r k gs) \<Rightarrow> Some (Chain r k (gs @ groups)))"

definition set_Retries :: "64 word \<Rightarrow> chain \<Rightarrow> chain" where
  "set_Retries k c = (case c of Chain r _ gs \<Rightarrow> Chain r k gs)"

section \<open>Route resolution: selectRoute\<close>

text \<open>
  The loop of \<^verbatim>\<open>selectRoute\<close> over the groups, with the log buffer and the route under
  construction as its state.  \<open>Inl\<close> is the early \<^verbatim>\<open>return nil, err\<close>.
\<close>

fun selectRoute_loop ::
  "'w env \<Rightarrow> 64 word \<Rightarrow> node_group list \<Rightarrow> string \<Rightarrow> chain \<Rightarrow> 'w world
    \<Rightarrow> (error + string \<times> chain) res \<times> 'w world" where
  "selectRoute_loop E k [] buf route w = (Ret (Inr (buf, route)), w)"
| "selectRoute_loop E k (grp # rest) buf route w =
     (case call (EvNext grp) (Group_Next E grp) w of
        (Inl err, w1) \<Rightarrow> (Ret (Inl err), w1)
      | (Inr node, w1) \<Rightarrow>
          (let buf1 = buf @ Node_String E node @ '' -> '' in
           case Client node of
             None \<Rightarrow> (Panic, w1)
           | Some cl \<Rightarrow>
               if Multiplex (Transporter cl) then
                 (case node of Node i a dopts hopts c \<Rightarrow>
                    let node1 = Node i a (dopts @ [ChainDialOption route]) hopts c;
                        route1 = set_Retries k (newRoute [])
                    in selectRoute_loop E k rest buf1 (the (AddNode (Some route1) [node1])) w1)
               else selectRoute_loop E k rest buf1 (the (AddNode (Some route) [node])) w1))"

definition selectRoute ::
  "'w env \<Rightarrow> chain \<Rightarrow> 'w world \<Rightarrow> (chain option \<times> error option) res \<times> 'w world" where
  "selectRoute E c w =
     (if isRoute c then (Ret (Some c, None), w)
      else
        case selectRoute_loop E (Retries c) (nodeGroups c) [] (set_Retries (Retries c) (newRoute [])) w of
          (Panic, w1) \<Rightarrow> (Panic, w1)
        | (Ret (Inl err), w1) \<Rightarrow> (Ret (None, Some err), w1)
        | (Ret (Inr (buf, route)), w1) \<Rightarrow>
            (Ret (Some route, None),
             if Debug E then w1\<lparr>trace := trace w1 @ [EvLog [''select route:'', buf]]\<rparr> else w1))"

section \<open>Connection building: getConn\<close>

text \<open>
  The loop of \<^verbatim>\<open>getConn\<close> over \<^verbatim>\<open>nodes[1:]\<close>, with \<^verbatim>\<open>preNode\<close> and the connection built so
  far, \<^verbatim>\<open>cn\<close>, as its state.  The named results are \<^verbatim>\<open>conn\<close>, assigned only after the
  loop, and \<^verbatim>\<open>err\<close>: every early \<^verbatim>\<open>return\<close> yields a nil \<^verbatim>\<open>conn\<close>.
\<close>

fun getConn_loop ::
  "'w env \<Rightarrow> node \<Rightarrow> conn \<Rightarrow> node list \<Rightarrow> 'w world \<Rightarrow> conn_err res \<times> 'w world" where
  "getConn_loop E preNode cn [] w = (Ret (Some cn, None), w)"
| "getConn_loop E preNode cn (node # rest) w =
     (case Client preNode of
        None \<Rightarrow> (Panic, w)
      | Some pcl \<Rightarrow>
          (case call (EvConnect preNode cn (Addr node)) (Client_Connect E pcl cn (Addr node)) w of
             (Inl err, w1) \<Rightarrow> (Ret (None, Some err), MarkDead E node (Close E cn w1))
           | (Inr cc, w1) \<Rightarrow>
               (case Client node of
                  None \<Rightarrow> (Panic, w1)
                | Some cl \<Rightarrow>
                    (case call (EvHandshake node cc) (Client_Handshake E cl cc (HandshakeOptions node)) w1 of
                       (Inl err, w2) \<Rightarrow> (Ret (None, Some err), MarkDead E node (Close E cn w2))
                     | (Inr cc1, w2) \<Rightarrow> getConn_loop E node cc1 rest (ResetDead E node w2)))))"

definition getConn :: "'w env \<Rightarrow> chain option \<Rightarrow> 'w world \<Rightarrow> conn_err res \<times> 'w world" where
  "getConn E c w =
     (if IsEmpty c then (Ret (None, Some ErrEmptyChain), w)
      else
        case Nodes (the c) of
          [] \<Rightarrow> (Panic, w)
        | node # rest \<Rightarrow>
            (case Client node of
               None \<Rightarrow> (Panic, w)
             | Some cl \<Rightarrow>
                 (case call (EvDial node) (Client_Dial E cl (Addr node) (DialOptions node)) w of
                    (Inl err, w1) \<Rightarrow> (Ret (None, Some err), MarkDead E node w1)
                  | (Inr cn, w1) \<Rightarrow>
                      (case call (EvHandshake node cn) (Client_Handshake E cl cn (HandshakeOptions node)) w1 of
                         (Inl err, w2) \<Rightarrow> (Ret (None, Some err), MarkDead E node w2)
                       | (Inr cn1, w2) \<Rightarrow> getConn_loop E node cn1 rest (ResetDead E node w2)))))"

section \<open>The dial orchestrator: dial, Dial and Conn\<close>

text \<open>
  One attempt of \<^verbatim>\<open>Dial\<close>.  \<^verbatim>\<open>getConn\<close> never returns a nil connection with a nil error
  (lemma \<open>getConn_shape\<close>); a nil connection handed to \<^verbatim>\<open>Connect\<close> is a nil dereference.
\<close>

definition dial :: "'w env \<Rightarrow> chain \<Rightarrow> string \<Rightarrow> 'w world \<Rightarrow> conn_err res \<times> 'w world" where
  "dial E c addr w =
     (case selectRoute E c w of
        (Panic, w1) \<Rightarrow> (Panic, w1)
      | (Ret (route, Some err), w1) \<Rightarrow> (Ret (None, Some err), w1)
      | (Ret (route, None), w1) \<Rightarrow>
          (case getConn E route w1 of
             (Panic, w2) \<Rightarrow> (Panic, w2)
           | (Ret (cn, Some err), w2) \<Rightarrow> (Ret (None, Some err), w2)
           | (Ret (None, None), w2) \<Rightarrow> (Panic, w2)
           | (Ret (Some cn, None), w2) \<Rightarrow>
               (case LastNode route of
                  Panic \<Rightarrow> (Panic, w2)
                | Ret lnode \<Rightarrow>
                    (case Client lnode of
                       None \<Rightarrow> (Panic, w2)
                     | Some cl \<Rightarrow>
                         (case call (EvConnect lnode cn addr) (Client_Connect E cl cn addr) w2 of
                            (Inl err, w3) \<Rightarrow> (Ret (None, Some err), Close E cn w3)
                          | (Inr cc, w3) \<Rightarrow> (Ret (Some cc, None), w3))))))"

text \<open>
  The loop \<^verbatim>\<open>for i := 0; i < c.Retries+1; i++\<close> runs its body once for every \<^verbatim>\<open>i\<close> from 0
  below the wrapped, signed value of \<^verbatim>\<open>c.Retries+1\<close>, unless the body breaks out.
\<close>

definition attempts :: "64 word \<Rightarrow> nat" where
  "attempts r = (if sint (r + 1) \<le> 0 then 0 else nat (sint (r + 1)))"

text \<open>The loop of \<^verbatim>\<open>Dial\<close>: the named results \<^verbatim>\<open>(conn, err)\<close> are the loop's state.\<close>

fun Dial_loop ::
  "'w env \<Rightarrow> chain \<Rightarrow> string \<Rightarrow> nat \<Rightarrow> conn_err \<Rightarrow> 'w world \<Rightarrow> conn_err res \<times> 'w world" where
  "Dial_loop E c addr 0 acc w = (Ret acc, w)"
| "Dial_loop E c addr (Suc n) acc w =
     (case dial E c addr w of
        (Panic, w1) \<Rightarrow> (Panic, w1)
      | (Ret (cn, err), w1) \<Rightarrow>
          if err = None then (Ret (cn, err), w1)
          else Dial_loop E c addr n (cn, err) w1)"

definition Dial :: "'w env \<Rightarrow> chain option \<Rightarrow> string \<Rightarrow> 'w world \<Rightarrow> conn_err res \<times> 'w world" where
  "Dial E c addr w =
     (if IsEmpty c then
        (case call (EvNetDial ''tcp'' addr (DialTimeout E))
                (net_DialTimeout E ''tcp'' addr (DialTimeout E)) w of
           (r, w1) \<Rightarrow> (Ret (pair_of r), w1))
      else Dial_loop E (the c) addr (attempts (Retries (the c))) (None, None) w)"

text \<open>
  One pass through the body of the loop of \<^verbatim>\<open>Conn\<close>, from the results \<^verbatim>\<open>(conn, err)\<close>
  left by the passes before it: \<open>Inl\<close> is \<^verbatim>\<open>continue\<close>, \<open>Inr\<close> is \<^verbatim>\<open>break\<close>.
\<close>

definition Conn_body ::
  "'w env \<Rightarrow> chain \<Rightarrow> conn_err \<Rightarrow> 'w world \<Rightarrow> (conn_err + conn_err) res \<times> 'w world" where
  "Conn_body E c acc w =
     (case selectRoute E c w of
        (Panic, w1) \<Rightarrow> (Panic, w1)
      | (Ret (route, Some err), w1) \<Rightarrow> (Ret (Inl (fst acc, Some err)), w1)
      | (Ret (route, None), w1) \<Rightarrow>
          (case getConn E route w1 of
             (Panic, w2) \<Rightarrow> (Panic, w2)
           | (Ret (cn, Some err), w2) \<Rightarrow> (Ret (Inl (cn, Some err)), w2)
           | (Ret (cn, None), w2) \<Rightarrow> (Ret (Inr (cn, None)), w2)))"

fun Conn_loop ::
  "'w env \<Rightarrow> chain \<Rightarrow> nat \<Rightarrow> conn_err \<Rightarrow> 'w world \<Rightarrow> conn_err res \<times> 'w world" where
  "Conn_loop E c 0 acc w = (Ret acc, w)"
| "Conn_loop E c (Suc n) acc w =
     (case Conn_body E c acc w of
        (Panic, w1) \<Rightarrow> (Panic, w1)
      | (Ret (Inl acc1), w1) \<Rightarrow> Conn_loop E c n acc1 w1
      | (Ret (Inr acc1), w1) \<Rightarrow> (Ret acc1, w1))"

definition Conn :: "'w env \<Rightarrow> chain option \<Rightarrow> 'w world \<Rightarrow> conn_err res \<times> 'w world" where
  "Conn E c w =
     (case c of
        None \<Rightarrow> (Panic, w)
      | Some ch \<Rightarrow> Conn_loop E ch (attempts (Retries ch)) (None, None) w)"

section \<open>Observing a run\<close>

text \<open>The calls of each kind that a list of events holds, in order.\<close>

fun health_of :: "event \<Rightarrow> event list" where
  "health_of (EvMarkDead n) = [EvMarkDead n]"
| "health_of (EvResetDead n) = [EvResetDead n]"
| "health_of _ = []"

fun close_of :: "event \<Rightarrow> conn list" where
  "close_of (EvClose cn) = [cn]"
| "close_of _ = []"

fun dial_of :: "event \<Rightarrow> node list" where
  "dial_of (EvDial n) = [n]"
| "dial_of _ = []"

fun handshake_of :: "event \<Rightarrow> node list" where
  "handshake_of (EvHandshake n cn) = [n]"
| "handshake_of _ = []"

fun connect_of :: "event \<Rightarrow> string list" where
  "connect_of (EvConnect n cn a) = [a]"
| "connect_of _ = []"

fun next_of :: "event \<Rightarrow> node_group list" where
  "next_of (EvNext g) = [g]"
| "next_of _ = []"

definition selected :: "event list \<Rightarrow> node_group list" where
  "selected T = concat (map next_of T)"

definition starts_with :: "'a list \<Rightarrow> 'a list \<Rightarrow> bool" where
  "starts_with xs ys = (take (length xs) ys = xs)"

definition health_events :: "event list \<Rightarrow> event list" where
  "health_events T = concat (map health_of T)"

definition closed_conns :: "event list \<Rightarrow> conn list" where
  "closed_conns T = concat (map close_of T)"

definition dialed :: "event list \<Rightarrow> node list" where
  "dialed T = concat (map dial_of T)"

definition handshaken :: "event list \<Rightarrow> node list" where
  "handshaken T = concat (map handshake_of T)"

definition connect_targets :: "event list \<Rightarrow> string list" where
  "connect_targets T = concat (map connect_of T)"

text \<open>The events that a run from world \<open>w\<close> to world \<open>w'\<close> has added.\<close>

definition new_events :: "'w world \<Rightarrow> 'w world \<Rightarrow> event list" where
  "new_events w w' = drop (length (trace w)) (trace w')"

text \<open>
  The two calls that \<^verbatim>\<open>getConn\<close> makes for a hop after the first: connect-through from
  the previous hop over the connection built so far, then the handshake with the hop.
\<close>

definition connect_handshake ::
  "'w env \<Rightarrow> node \<Rightarrow> conn \<Rightarrow> node \<Rightarrow> 'w world \<Rightarrow> (error + conn) res \<times> 'w world" where
  "connect_handshake E preNode cn node w =
     (case Client preNode of
        None \<Rightarrow> (Panic, w)
      | Some pcl \<Rightarrow>
          (case call (EvConnect preNode cn (Addr node)) (Client_Connect E pcl cn (Addr node)) w of
             (Inl err, w1) \<Rightarrow> (Ret (Inl err), w1)
           | (Inr cc, w1) \<Rightarrow>
               (case Client node of
                  None \<Rightarrow> (Panic, w1)
                | Some cl \<Rightarrow>
                    (case call (EvHandshake node cc) (Client_Handshake E cl cc (HandshakeOptions node)) w1 of
                       (r, w2) \<Rightarrow> (Ret r, w2)))))"


text \<open>The world after \<open>k\<close> consecutive runs of \<open>f\<close>, each from the world the one before left.\<close>

definition after :: "('s \<Rightarrow> 'a \<times> 's) \<Rightarrow> nat \<Rightarrow> 's \<Rightarrow> 's" where
  "after f k w = ((\<lambda>s. snd (f s)) ^^ k) w"

text \<open>
  The result of attempt number \<open>k\<close> (from 0) in a row of attempts, and whether a result
  makes the retry loops go on: it carries a non-nil error.
\<close>

definition attempt_result :: "('s \<Rightarrow> 'a \<times> 's) \<Rightarrow> nat \<Rightarrow> 's \<Rightarrow> 'a" where
  "attempt_result f k w = fst (f (after f k w))"

fun fails :: "conn_err res \<Rightarrow> bool" where
  "fails (Ret (cn, Some e)) = True"
| "fails _ = False"

text \<open>
  One attempt of \<^verbatim>\<open>Conn\<close>: a pass through the body of its loop, started with a nil
  \<^verbatim>\<open>conn\<close>, and the results \<^verbatim>\<open>(conn, err)\<close> that the pass leaves.
\<close>

definition Conn_attempt :: "'w env \<Rightarrow> chain \<Rightarrow> 'w world \<Rightarrow> conn_err res \<times> 'w world" where
  "Conn_attempt E c w =
     (case Conn_body E c (None, None) w of
        (Panic, w1) \<Rightarrow> (Panic, w1)
      | (Ret (Inl acc), w1) \<Rightarrow> (Ret acc, w1)
      | (Ret (Inr acc), w1) \<Rightarrow> (Ret acc, w1))"

text \<open>A bounded retry: run \<open>f\<close> until it returns a nil error, at most \<open>n\<close> times.\<close>

fun retry :: "('s \<Rightarrow> conn_err res \<times> 's) \<Rightarrow> nat \<Rightarrow> conn_err \<Rightarrow> 's \<Rightarrow> conn_err res \<times> 's" where
  "retry f 0 acc w = (Ret acc, w)"
| "retry f (Suc n) acc w =
     (case f w of
        (Panic, w1) \<Rightarrow> (Panic, w1)
      | (Ret (cn, err), w1) \<Rightarrow> if err = None then (Ret (cn, err), w1) else retry f n (cn, err) w1)"

text \<open>The largest value of a 64-bit Go \<^verbatim>\<open>int\<close>.\<close>

definition MaxInt :: "64 word" where
  "MaxInt = 0x7FFFFFFFFFFFFFFF"

text \<open>
  What resolving a chain with no group adds to the world: the log line, when \<^verbatim>\<open>Debug\<close>
  is set and the chain is not yet a route.
\<close>

definition log_empty :: "'w env \<Rightarrow> chain \<Rightarrow> 'w world \<Rightarrow> 'w world" where
  "log_empty E c w =
     (if Debug E \<and> \<not> isRoute c then w\<lparr>trace := trace w @ [EvLog [''select route:'', []]]\<rparr>
      else w)"

subsection \<open>The invariant of resolved routes\<close>

text \<open>
  A chain marked as a route holds singleton groups only; \<open>routes_ok\<close> asks this of the
  chain and of every chain sealed in a dial option of one of its hops, to any depth.
\<close>

definition singletons :: "chain \<Rightarrow> bool" where
  "singletons c = list_all (\<lambda>g. length (nodes g) = 1) (nodeGroups c)"

fun routes_ok :: "chain \<Rightarrow> bool"
  and group_ok :: "node_group \<Rightarrow> bool"
  and node_ok :: "node \<Rightarrow> bool"
  and option_ok :: "dial_option \<Rightarrow> bool" where
  "routes_ok (Chain r k gs) =
     ((r \<longrightarrow> list_all (\<lambda>g. length (nodes g) = 1) gs) \<and> list_all group_ok gs)"
| "group_ok (NodeGroup ns os) = list_all node_ok ns"
| "node_ok (Node i a dopts hopts cl) = list_all option_ok dopts"
| "option_ok (ChainDialOption c) = routes_ok c"
| "option_ok (TimeoutDialOption t) = True"

subsection \<open>A simulated environment\<close>

text \<open>
  A concrete set of collaborators, to run the definitions on: the external state counts
  the dials made, and the first \<open>k\<close> dials fail.  A group selects its first candidate, a
  handshake fails for the connector 9, and connect-through fails for the address \<open>bad\<close>.
\<close>

definition sim :: "nat \<Rightarrow> nat env" where
  "sim k = \<lparr>
     Group_Next = (\<lambda>g x. (case nodes g of [] \<Rightarrow> Inl (ErrExternal 0) | n # _ \<Rightarrow> Inr n, x)),
     Client_Dial = (\<lambda>cl a opts x. (if x < k then Inl (ErrExternal (Suc x)) else Inr 100, Suc x)),
     Client_Handshake = (\<lambda>cl cn opts x. (if Connector cl = 9 then Inl (ErrExternal 9) else Inr cn, x)),
     Client_Connect = (\<lambda>cl cn a x. (if a = ''bad'' then Inl (ErrExternal 7) else Inr (Suc cn), x)),
     Conn_Close = (\<lambda>cn x. x),
     Node_MarkDead = (\<lambda>n x. x),
     Node_ResetDead = (\<lambda>n x. x),
     Node_String = Addr,
     net_DialTimeout = (\<lambda>net a t x. (Inr 500, x)),
     DialTimeout = 30,
     Debug = False \<rparr>"

definition w0 :: "nat world" where
  "w0 = \<lparr>ext = 0, trace = []\<rparr>"

definition hop :: "nat \<Rightarrow> string \<Rightarrow> nat \<Rightarrow> bool \<Rightarrow> node" where
  "hop i a k m = Node i a [] [] (Some (MkClient k (MkTransporter 0 m)))"

section \<open>Basic facts\<close>

lemma trace_effect [simp]: "trace (effect ev f w) = trace w @ [ev]"
  by (simp add: effect_def)

lemma ext_effect [simp]: "ext (effect ev f w) = f (ext w)"
  by (simp add: effect_def)

lemma call_eq:
  "call ev f w = (r, w') \<longleftrightarrow>
     r = fst (f (ext w)) \<and> w' = \<lparr>ext = snd (f (ext w)), trace = trace w @ [ev]\<rparr>"
  by (auto simp: call_def split: prod.splits)

lemma IsEmpty_simps [simp]:
  "IsEmpty None" "IsEmpty (Some c) \<longleftrightarrow> nodeGroups c = []"
  by (simp_all add: IsEmpty_def)

subsection \<open>The number of passes through the retry loops\<close>

lemma sint_plus_one:
  fixes r :: "64 word"
  assumes "sint r < 2 ^ 63 - 1"
  shows "sint (r + 1) = sint r + 1"
proof -
  have lo: "- (2 ^ 63) \<le> sint r"
    using sint_ge [of r] by simp
  have "sint (r + 1) = signed_take_bit 63 (sint r + 1)"
    by (simp add: sint_word_ariths)
  also have "\<dots> = sint r + 1"
    using assms lo by (intro signed_take_bit_int_eq_self) simp_all
  finally show ?thesis .
qed

lemma attempts_negative: "sint r < 0 \<Longrightarrow> attempts r = 0"
  by (simp add: attempts_def sint_plus_one)

lemma attempts_nonneg:
  "0 \<le> sint r \<Longrightarrow> r \<noteq> MaxInt \<Longrightarrow> attempts r = Suc (nat (sint r))"
proof -
  assume nn: "0 \<le> sint r" and ne: "r \<noteq> MaxInt"
  have "sint r \<noteq> sint MaxInt"
    using ne signed_word_eqI [of r MaxInt] by blast
  moreover have "sint MaxInt = 2 ^ 63 - 1"
    by (simp add: MaxInt_def)
  moreover have "sint r < 2 ^ 63"
    using sint_lt [of r] by simp
  ultimately have "sint r < 2 ^ 63 - 1" by simp
  then have "sint (r + 1) = sint r + 1" by (rule sint_plus_one)
  then show ?thesis using nn by (simp add: attempts_def nat_add_distrib)
qed

lemma attempts_MaxInt: "attempts MaxInt = 0"
  by (simp add: attempts_def MaxInt_def)

section \<open>Resolved routes are returned as they are\<close>

text \<open>
  C6: for a chain already marked as a resolved route, \<^verbatim>\<open>selectRoute\<close> returns that same
  chain with a nil error, and the world is the one it started in: no group selection,
  no health mutation, no other call is made, and the chain with its dial options is
  the value that went in.
\<close>

theorem selectRoute_resolved_identity:
  "isRoute c \<Longrightarrow> selectRoute E c w = (Ret (Some c, None), w)"
  by (simp add: selectRoute_def)

theorem selectRoute_resolved_identity_witness:
  "isRoute (newRoute [hop 1 ''a'' 0 False]) \<and>
   selectRoute (sim 0) (newRoute [hop 1 ''a'' 0 False]) w0 =
     (Ret (Some (newRoute [hop 1 ''a'' 0 False]), None), w0)"
  using selectRoute_resolved_identity [of "newRoute [hop 1 ''a'' 0 False]" "sim 0" w0]
  by (simp add: newRoute_def NewChain_def)

section \<open>The empty chain dials directly\<close>

text \<open>
  C7: for an empty chain (nil, or with no node group) and any address, \<^verbatim>\<open>Dial\<close> makes
  exactly one call, \<^verbatim>\<open>net.DialTimeout("tcp", addr, DialTimeout)\<close>, and returns its result:
  the trace grows by that one event, so no group or hop method is invoked and nothing is
  retried.
\<close>

theorem Dial_empty_direct:
  "IsEmpty c \<Longrightarrow>
   Dial E c addr w =
     (Ret (pair_of (fst (net_DialTimeout E ''tcp'' addr (DialTimeout E) (ext w)))),
      \<lparr>ext = snd (net_DialTimeout E ''tcp'' addr (DialTimeout E) (ext w)),
       trace = trace w @ [EvNetDial ''tcp'' addr (DialTimeout E)]\<rparr>)"
  by (simp add: Dial_def call_def split: prod.splits)

theorem Dial_empty_direct_witness:
  "IsEmpty None \<and> IsEmpty (Some (Chain False 3 [])) \<and>
   Dial (sim 0) None ''dst'' w0 =
     (Ret (Some 500, None), \<lparr>ext = 0, trace = [EvNetDial ''tcp'' ''dst'' 30]\<rparr>) \<and>
   Dial (sim 0) (Some (Chain False 3 [])) ''dst'' w0 =
     (Ret (Some 500, None), \<lparr>ext = 0, trace = [EvNetDial ''tcp'' ''dst'' 30]\<rparr>)"
  using Dial_empty_direct [of None "sim 0" "''dst''" w0]
    Dial_empty_direct [of "Some (Chain False 3 [])" "sim 0" "''dst''" w0]
  by (simp add: sim_def w0_def pair_of_def)

section \<open>A negative retry budget\<close>

text \<open>
  C10: for a non-empty chain whose \<^verbatim>\<open>Retries\<close> is negative, \<^verbatim>\<open>Dial\<close> and \<^verbatim>\<open>Conn\<close> run
  their loop body zero times: both return a nil connection with a nil error, and the
  world is unchanged (no selection, no dial, no handshake).
\<close>

theorem negative_Retries_no_attempt:
  "nodeGroups c \<noteq> [] \<Longrightarrow> sint (Retries c) < 0 \<Longrightarrow>
   Dial E (Some c) addr w = (Ret (None, None), w) \<and> Conn E (Some c) w = (Ret (None, None), w)"
  by (simp add: Dial_def Conn_def attempts_negative)

theorem negative_Retries_no_attempt_witness:
  "nodeGroups (Chain False (- 1) [NewNodeGroup [hop 1 ''a'' 0 False]]) \<noteq> [] \<and>
   sint (Retries (Chain False (- 1) [NewNodeGroup [hop 1 ''a'' 0 False]])) < 0 \<and>
   Dial (sim 0) (Some (Chain False (- 1) [NewNodeGroup [hop 1 ''a'' 0 False]])) ''dst'' w0 =
     (Ret (None, None), w0) \<and>
   Conn (sim 0) (Some (Chain False (- 1) [NewNodeGroup [hop 1 ''a'' 0 False]])) w0 =
     (Ret (None, None), w0)"
  using negative_Retries_no_attempt
    [of "Chain False (- 1) [NewNodeGroup [hop 1 ''a'' 0 False]]" "sim 0" "''dst''" w0]
  by simp

section \<open>The multiplex cutover\<close>

text \<open>
  C1 (as the code has it): for an unresolved chain with the groups \<open>[G0, G1]\<close>, where the
  hop selected from \<open>G0\<close> is multiplexing and the hop selected from \<open>G1\<close> is not,
  \<^verbatim>\<open>selectRoute\<close> returns a route holding both hops in order: first the hop of \<open>G0\<close>, with
  the segment sealed before it (here the empty route, with the chain's retry budget)
  appended to its own dial options, then the hop of \<open>G1\<close>, unchanged.
\<close>

theorem selectRoute_multiplex_first:
  assumes "\<not> isRoute c" and "nodeGroups c = [G0, G1]"
    and "Group_Next E G0 (ext w) = (Inr hopA, x1)"
    and "Client hopA = Some clA" and "Multiplex (Transporter clA)"
    and "Group_Next E G1 x1 = (Inr hopB, x2)"
    and "Client hopB = Some clB" and "\<not> Multiplex (Transporter clB)"
  shows "fst (selectRoute E c w) =
     Ret (Some (Chain True (Retries c)
                  [NewNodeGroup [Node (ID hopA) (Addr hopA)
                                   (DialOptions hopA @ [ChainDialOption (Chain True (Retries c) [])])
                                   (HandshakeOptions hopA) (Client hopA)],
                   NewNodeGroup [hopB]]), None)"
  using assms
  by (cases hopA)
    (simp add: selectRoute_def call_def set_Retries_def newRoute_def NewChain_def AddNode_def)

theorem selectRoute_multiplex_first_witness:
  "fst (selectRoute (sim 0)
          (Chain False 0 [NewNodeGroup [hop 1 ''a'' 0 True], NewNodeGroup [hop 2 ''b'' 0 False]]) w0) =
     Ret (Some (Chain True 0
                  [NewNodeGroup [Node 1 ''a'' [ChainDialOption (Chain True 0 [])] []
                                   (Some (MkClient 0 (MkTransporter 0 True)))],
                   NewNodeGroup [hop 2 ''b'' 0 False]]), None)"
  using selectRoute_multiplex_first [of
      "Chain False 0 [NewNodeGroup [hop 1 ''a'' 0 True], NewNodeGroup [hop 2 ''b'' 0 False]]"
      "NewNodeGroup [hop 1 ''a'' 0 True]" "NewNodeGroup [hop 2 ''b'' 0 False]"
      "sim 0" w0 "hop 1 ''a'' 0 True" 0 "MkClient 0 (MkTransporter 0 True)"
      "hop 2 ''b'' 0 False" 0 "MkClient 0 (MkTransporter 0 False)"]
  by (simp add: sim_def w0_def hop_def NewNodeGroup_def)

text \<open>
  The scenario of the claim, \<open>G0 = {hopA, multiplexing}\<close> and \<open>G1 = {hopB}\<close>: the route
  has two hops, not \<open>hopB\<close> alone, and the dial options of \<open>hopB\<close> are as they were.
\<close>

theorem selectRoute_multiplex_counterexample:
  "fst (selectRoute (sim 0)
          (Chain False 0 [NewNodeGroup [hop 1 ''a'' 0 True], NewNodeGroup [hop 2 ''b'' 0 False]]) w0) =
     Ret (Some (Chain True 0
                  [NodeGroup [Node 1 ''a'' [ChainDialOption (Chain True 0 [])] []
                                (Some (MkClient 0 (MkTransporter 0 True)))] [],
                   NodeGroup [Node 2 ''b'' [] [] (Some (MkClient 0 (MkTransporter 0 False)))] []]), None) \<and>
   Nodes (Chain True 0
            [NodeGroup [Node 1 ''a'' [ChainDialOption (Chain True 0 [])] []
                          (Some (MkClient 0 (MkTransporter 0 True)))] [],
             NodeGroup [Node 2 ''b'' [] [] (Some (MkClient 0 (MkTransporter 0 False)))] []]) =
     [Node 1 ''a'' [ChainDialOption (Chain True 0 [])] [] (Some (MkClient 0 (MkTransporter 0 True))),
      Node 2 ''b'' [] [] (Some (MkClient 0 (MkTransporter 0 False)))] \<and>
   hop 2 ''b'' 0 False = Node 2 ''b'' [] [] (Some (MkClient 0 (MkTransporter 0 False)))"
  by (simp add: selectRoute_def call_def set_Retries_def newRoute_def NewChain_def AddNode_def
      sim_def w0_def hop_def NewNodeGroup_def Nodes_def group_Nodes_def)

section \<open>The empty route\<close>

lemma selectRoute_empty:
  "nodeGroups c = [] \<Longrightarrow>
   selectRoute E c w =
     (Ret (Some (if isRoute c then c else Chain True (Retries c) []), None), log_empty E c w)"
  by (simp add: selectRoute_def set_Retries_def newRoute_def NewChain_def log_empty_def)

lemma Conn_body_empty:
  "nodeGroups c = [] \<Longrightarrow>
   Conn_body E c acc w = (Ret (Inl (None, Some ErrEmptyChain)), log_empty E c w)"
  by (simp add: Conn_body_def selectRoute_empty getConn_def)

lemma Conn_loop_empty:
  "nodeGroups c = [] \<Longrightarrow>
   Conn_loop E c (Suc n) acc w = (Ret (None, Some ErrEmptyChain), (log_empty E c ^^ Suc n) w)"
proof (induction n arbitrary: acc w)
  case 0
  then show ?case by (simp add: Conn_body_empty)
next
  case (Suc n)
  have "Conn_loop E c (Suc (Suc n)) acc w =
      Conn_loop E c (Suc n) (None, Some ErrEmptyChain) (log_empty E c w)"
    using Suc.prems by (simp add: Conn_body_empty)
  also have "\<dots> = (Ret (None, Some ErrEmptyChain), (log_empty E c ^^ Suc n) (log_empty E c w))"
    using Suc.prems by (rule Suc.IH)
  finally show ?case by (simp add: funpow_swap1)
qed

lemma log_empty_funpow:
  "ext ((log_empty E c ^^ n) w) = ext w \<and>
   trace ((log_empty E c ^^ n) w) =
     trace w @ (if Debug E \<and> \<not> isRoute c then replicate n (EvLog [''select route:'', []]) else [])"
  by (induction n) (auto simp: log_empty_def replicate_append_same)

text \<open>
  On an empty route \<^verbatim>\<open>getConn\<close> returns a nil connection and \<^verbatim>\<open>ErrEmptyChain\<close> and
  leaves the world as it was (no hop operation).  \<^verbatim>\<open>Conn\<close> on a chain with no group
  returns \<^verbatim>\<open>ErrEmptyChain\<close>, as its documentation says, whenever its loop runs at all:
  for every \<^verbatim>\<open>Retries\<close> that is at least 0 and not the largest \<^verbatim>\<open>int\<close>.  All it adds to
  the world is the log line of each resolution, when \<^verbatim>\<open>Debug\<close> is set.
\<close>

theorem empty_route_ErrEmptyChain:
  "(IsEmpty c \<longrightarrow> getConn E c w = (Ret (None, Some ErrEmptyChain), w)) \<and>
   (nodeGroups ch = [] \<and> 0 \<le> sint (Retries ch) \<and> Retries ch \<noteq> MaxInt \<longrightarrow>
      fst (Conn E (Some ch) w) = Ret (None, Some ErrEmptyChain) \<and>
      ext (snd (Conn E (Some ch) w)) = ext w \<and>
      trace (snd (Conn E (Some ch) w)) =
        trace w @ (if Debug E \<and> \<not> isRoute ch
                   then replicate (attempts (Retries ch)) (EvLog [''select route:'', []]) else []))"
proof (intro conjI impI)
  assume "IsEmpty c"
  then show "getConn E c w = (Ret (None, Some ErrEmptyChain), w)"
    by (simp add: getConn_def)
next
  assume a: "nodeGroups ch = [] \<and> 0 \<le> sint (Retries ch) \<and> Retries ch \<noteq> MaxInt"
  then have n: "attempts (Retries ch) = Suc (nat (sint (Retries ch)))"
    by (simp add: attempts_nonneg)
  have run: "Conn E (Some ch) w =
      (Ret (None, Some ErrEmptyChain), (log_empty E ch ^^ attempts (Retries ch)) w)"
    using a Conn_loop_empty [where c = ch and E = E and n = "nat (sint (Retries ch))"
        and acc = "(None, None)" and w = w]
    by (simp add: Conn_def n del: funpow.simps Conn_loop.simps)
  show "fst (Conn E (Some ch) w) = Ret (None, Some ErrEmptyChain)"
    by (simp add: run)
  show "ext (snd (Conn E (Some ch) w)) = ext w"
    by (simp add: run log_empty_funpow del: funpow.simps)
  show "trace (snd (Conn E (Some ch) w)) =
        trace w @ (if Debug E \<and> \<not> isRoute ch
                   then replicate (attempts (Retries ch)) (EvLog [''select route:'', []]) else [])"
    using log_empty_funpow [where E = E and c = ch and n = "attempts (Retries ch)" and w = w]
    by (simp add: run)
qed

theorem empty_route_ErrEmptyChain_witness:
  "IsEmpty (Some (Chain False 1 [])) \<and>
   getConn (sim 0) (Some (Chain False 1 [])) w0 = (Ret (None, Some ErrEmptyChain), w0) \<and>
   nodeGroups (Chain False 1 []) = [] \<and> 0 \<le> sint (Retries (Chain False 1 [])) \<and>
   Retries (Chain False 1 []) \<noteq> MaxInt \<and>
   Conn (sim 0) (Some (Chain False 1 [])) w0 = (Ret (None, Some ErrEmptyChain), w0)"
proof -
  note inst = empty_route_ErrEmptyChain [of "Some (Chain False 1 [])" "sim 0" w0 "Chain False 1 []"]
  have "trace (snd (Conn (sim 0) (Some (Chain False 1 [])) w0)) = []"
    using inst by (simp add: MaxInt_def sim_def w0_def)
  moreover have "ext (snd (Conn (sim 0) (Some (Chain False 1 [])) w0)) = 0"
    using inst by (simp add: MaxInt_def sim_def w0_def)
  ultimately have "snd (Conn (sim 0) (Some (Chain False 1 [])) w0) = w0"
    by (simp add: w0_def)
  then show ?thesis
    using inst by (simp add: MaxInt_def prod_eq_iff)
qed

text \<open>
  C8, at an empty chain whose \<^verbatim>\<open>Retries\<close> is the largest \<^verbatim>\<open>int\<close> (which is at least 0):
  \<^verbatim>\<open>c.Retries+1\<close> overflows to the smallest \<^verbatim>\<open>int\<close>, the loop of \<^verbatim>\<open>Conn\<close> does not run,
  and \<^verbatim>\<open>Conn\<close> returns a nil connection with a nil error where its documentation
  promises \<^verbatim>\<open>ErrEmptyChain\<close>.
\<close>

theorem Conn_empty_MaxInt_returns_nil_nil:
  "nodeGroups (Chain False 0x7FFFFFFFFFFFFFFF []) = [] \<and>
   0 \<le> sint (Retries (Chain False 0x7FFFFFFFFFFFFFFF [])) \<and>
   Conn (sim 0) (Some (Chain False 0x7FFFFFFFFFFFFFFF [])) w0 = (Ret (None, None), w0)"
  by (simp add: Conn_def attempts_def)

section \<open>Closing the connection on failure\<close>

text \<open>
  C2, at a route of one hop whose dial succeeds with connection 100 and whose handshake
  fails: \<^verbatim>\<open>getConn\<close> marks the hop dead and returns the error with a nil connection; the
  calls it has made are the dial, the handshake and \<^verbatim>\<open>MarkDead\<close>, and connection 100
  is not closed.
\<close>

theorem getConn_first_handshake_leaks:
  "getConn (sim 0) (Some (newRoute [hop 1 ''a'' 9 False])) w0 =
     (Ret (None, Some (ErrExternal 9)),
      \<lparr>ext = 1, trace = [EvDial (hop 1 ''a'' 9 False), EvHandshake (hop 1 ''a'' 9 False) 100,
                         EvMarkDead (hop 1 ''a'' 9 False)]\<rparr>) \<and>
   closed_conns (trace (snd (getConn (sim 0) (Some (newRoute [hop 1 ''a'' 9 False])) w0))) = []"
  by (simp add: getConn_def newRoute_def NewChain_def NewNodeGroup_def Nodes_def group_Nodes_def
      hop_def call_def sim_def w0_def MarkDead_def effect_def closed_conns_def)

section \<open>Building the connection\<close>

lemma getConn_loop_step:
  "getConn_loop E p cn (h # rest) w =
     (case connect_handshake E p cn h w of
        (Panic, w1) \<Rightarrow> (Panic, w1)
      | (Ret (Inl err), w1) \<Rightarrow> (Ret (None, Some err), MarkDead E h (Close E cn w1))
      | (Ret (Inr cc), w1) \<Rightarrow> getConn_loop E h cc rest (ResetDead E h w1))"
  by (simp add: connect_handshake_def split: option.splits prod.splits sum.splits)

lemma getConn_loop_shape:
  "getConn_loop E p cn xs w = (Ret (c, e), w') \<Longrightarrow> (c = None) \<noteq> (e = None)"
  by (induction xs arbitrary: p cn w)
     (auto split: option.splits prod.splits sum.splits)

lemma getConn_shape:
  "getConn E c w = (Ret (cn, e), w') \<Longrightarrow> (cn = None) \<noteq> (e = None)"
  by (auto simp: getConn_def dest: getConn_loop_shape
      split: if_splits list.splits option.splits prod.splits sum.splits)

lemma getConn_loop_append:
  "getConn_loop E p cn xs w = (Ret (Some cn', None), w') \<Longrightarrow>
   getConn_loop E p cn (xs @ ys) w = getConn_loop E (last (p # xs)) cn' ys w'"
proof (induction xs arbitrary: p cn w)
  case Nil
  then show ?case by simp
next
  case (Cons x xs)
  from Cons.prems obtain cc w1 where
    step: "connect_handshake E p cn x w = (Ret (Inr cc), w1)" and
    rest: "getConn_loop E x cc xs (ResetDead E x w1) = (Ret (Some cn', None), w')"
    unfolding getConn_loop_step
    by (auto split: prod.splits res.splits sum.splits)
  have "getConn_loop E p cn ((x # xs) @ ys) w = getConn_loop E x cc (xs @ ys) (ResetDead E x w1)"
    unfolding append_Cons getConn_loop_step by (simp add: step)
  also have "\<dots> = getConn_loop E (last (x # xs)) cn' ys w'"
    using rest by (rule Cons.IH)
  finally show ?case by simp
qed

lemmas obs_defs = health_events_def closed_conns_def dialed_def handshaken_def connect_targets_def

lemma connect_handshake_ok:
  assumes "connect_handshake E p cn h w = (Ret (Inr cc), w1)"
  shows "\<exists>cc0. trace w1 = trace w @ [EvConnect p cn (Addr h), EvHandshake h cc0]"
  using assms
  by (auto simp: connect_handshake_def call_def split: option.splits prod.splits sum.splits)

lemma connect_handshake_fail:
  assumes "connect_handshake E p cn h w = (Ret (Inl e), w1)"
  shows "trace w1 = trace w @ [EvConnect p cn (Addr h)] \<or>
         (\<exists>cc0. trace w1 = trace w @ [EvConnect p cn (Addr h), EvHandshake h cc0])"
  using assms
  by (auto simp: connect_handshake_def call_def split: option.splits prod.splits sum.splits)

lemma getConn_loop_events:
  "getConn_loop E p cn xs w = (Ret (Some cn', None), w') \<Longrightarrow>
   \<exists>T. trace w' = trace w @ T \<and> health_events T = map EvResetDead xs \<and> closed_conns T = [] \<and>
       dialed T = [] \<and> connect_targets T = map Addr xs \<and> handshaken T = xs"
proof (induction xs arbitrary: p cn w)
  case Nil
  then show ?case by (simp add: obs_defs)
next
  case (Cons x xs)
  from Cons.prems obtain cc w1 where
    step: "connect_handshake E p cn x w = (Ret (Inr cc), w1)" and
    rest: "getConn_loop E x cc xs (ResetDead E x w1) = (Ret (Some cn', None), w')"
    unfolding getConn_loop_step
    by (auto split: prod.splits res.splits sum.splits)
  from connect_handshake_ok [OF step] obtain cc0 where
    tr1: "trace w1 = trace w @ [EvConnect p cn (Addr x), EvHandshake x cc0]"
    by auto
  define T1 where "T1 = [EvConnect p cn (Addr x), EvHandshake x cc0]"
  have T1: "trace w1 = trace w @ T1" "health_events T1 = []" "closed_conns T1 = []"
        "dialed T1 = []" "connect_targets T1 = [Addr x]" "handshaken T1 = [x]"
    using tr1 by (simp_all add: T1_def obs_defs)
  from Cons.IH [OF rest] obtain T2 where
    T2: "trace w' = trace (ResetDead E x w1) @ T2" "health_events T2 = map EvResetDead xs"
        "closed_conns T2 = []" "dialed T2 = []" "connect_targets T2 = map Addr xs"
        "handshaken T2 = xs"
    by auto
  let ?T = "T1 @ [EvResetDead x] @ T2"
  have "trace w' = trace w @ ?T"
    using T1(1) T2(1) by (simp add: ResetDead_def)
  moreover have "health_events ?T = map EvResetDead (x # xs)"
    using T1(2) T2(2) by (simp add: obs_defs)
  moreover have "closed_conns ?T = []"
    using T1(3) T2(3) by (simp add: obs_defs)
  moreover have "dialed ?T = []"
    using T1(4) T2(4) by (simp add: obs_defs)
  moreover have "connect_targets ?T = map Addr (x # xs)"
    using T1(5) T2(5) by (simp add: obs_defs)
  moreover have "handshaken ?T = x # xs"
    using T1(6) T2(6) by (simp add: obs_defs)
  ultimately show ?case by blast
qed

lemma Nodes_nonempty: "Nodes c \<noteq> [] \<Longrightarrow> nodeGroups c \<noteq> []"
  by (auto simp: Nodes_def)

lemma getConn_ok_unfold:
  assumes "Nodes c = n # xs" and "getConn E (Some c) w = (Ret (Some cn', None), w')"
  shows "\<exists>cl cn cn1 x1 x2.
           Client n = Some cl \<and>
           Client_Dial E cl (Addr n) (DialOptions n) (ext w) = (Inr cn, x1) \<and>
           Client_Handshake E cl cn (HandshakeOptions n) x1 = (Inr cn1, x2) \<and>
           getConn_loop E n cn1 xs
             \<lparr>ext = Node_ResetDead E n x2,
              trace = trace w @ [EvDial n, EvHandshake n cn, EvResetDead n]\<rparr> =
             (Ret (Some cn', None), w')"
proof -
  have ne: "nodeGroups c \<noteq> []"
    using assms(1) Nodes_nonempty [of c] by simp
  show ?thesis
    using assms(2) ne
    by (auto simp: getConn_def assms(1) call_def ResetDead_def effect_def
        split: option.splits prod.splits sum.splits)
qed

lemma getConn_ok_events:
  assumes "Nodes c = n # xs" and "getConn E (Some c) w = (Ret (Some cn', None), w')"
  shows "\<exists>T. trace w' = trace w @ T \<and> health_events T = map EvResetDead (n # xs) \<and>
             closed_conns T = [] \<and> dialed T = [n] \<and> connect_targets T = map Addr xs \<and>
             handshaken T = n # xs"
proof -
  from getConn_ok_unfold [OF assms] obtain cn1 wa cn where
    tr: "trace wa = trace w @ [EvDial n, EvHandshake n cn, EvResetDead n]" and
    loop: "getConn_loop E n cn1 xs wa = (Ret (Some cn', None), w')"
    by (metis world.select_convs(2))
  from getConn_loop_events [OF loop] obtain T2 where
    T2: "trace w' = trace wa @ T2" "health_events T2 = map EvResetDead xs"
        "closed_conns T2 = []" "dialed T2 = []" "connect_targets T2 = map Addr xs"
        "handshaken T2 = xs"
    by auto
  let ?T = "[EvDial n, EvHandshake n cn, EvResetDead n] @ T2"
  have "trace w' = trace w @ ?T"
    using tr T2(1) by simp
  moreover have "health_events ?T = map EvResetDead (n # xs)"
    using T2(2) by (simp add: obs_defs)
  moreover have "closed_conns ?T = []"
    using T2(3) by (simp add: obs_defs)
  moreover have "dialed ?T = [n]"
    using T2(4) by (simp add: obs_defs)
  moreover have "connect_targets ?T = map Addr xs"
    using T2(5) by (simp add: obs_defs)
  moreover have "handshaken ?T = n # xs"
    using T2(6) by (simp add: obs_defs)
  ultimately show ?thesis by blast
qed

lemma getConn_prefix:
  assumes "pre \<noteq> []" and "Nodes cp = pre" and "Nodes c = pre @ ys"
    and "getConn E (Some cp) w = (Ret (Some cn, None), w1)"
  shows "getConn E (Some c) w = getConn_loop E (last pre) cn ys w1"
proof -
  obtain n xs where pre: "pre = n # xs"
    using assms(1) by (cases pre) auto
  have cp: "Nodes cp = n # xs" and c: "Nodes c = n # (xs @ ys)"
    using assms(2,3) pre by simp_all
  from getConn_ok_unfold [OF cp assms(4)] obtain cl cn0 cn1 x1 x2 where
    u: "Client n = Some cl"
       "Client_Dial E cl (Addr n) (DialOptions n) (ext w) = (Inr cn0, x1)"
       "Client_Handshake E cl cn0 (HandshakeOptions n) x1 = (Inr cn1, x2)"
       "getConn_loop E n cn1 xs
             \<lparr>ext = Node_ResetDead E n x2,
              trace = trace w @ [EvDial n, EvHandshake n cn0, EvResetDead n]\<rparr> =
             (Ret (Some cn, None), w1)"
    by blast
  have ne: "nodeGroups c \<noteq> []"
    using c Nodes_nonempty [of c] by simp
  have "getConn E (Some c) w =
      getConn_loop E n cn1 (xs @ ys)
        \<lparr>ext = Node_ResetDead E n x2,
         trace = trace w @ [EvDial n, EvHandshake n cn0, EvResetDead n]\<rparr>"
    using ne u(1-3) by (simp add: getConn_def c call_def ResetDead_def effect_def)
  also have "\<dots> = getConn_loop E (last (n # xs)) cn ys w1"
    using u(4) by (rule getConn_loop_append)
  finally show ?thesis by (simp add: pre)
qed

lemma new_events_append: "trace w' = trace w @ T \<Longrightarrow> new_events w w' = T"
  by (simp add: new_events_def)

text \<open>
  C3: take a route whose hops are \<open>pre @ h # post\<close> with \<open>pre\<close> non-empty, so that \<open>h\<close>
  is the hop at index \<open>i = length pre > 0\<close>.  If building the connection through the
  hops \<open>pre\<close> succeeds with connection \<open>cn\<close>, and connect-through to \<open>h\<close> or the
  handshake with \<open>h\<close> then fails with error \<open>e\<close>, then \<^verbatim>\<open>getConn\<close> returns a nil
  connection and \<open>e\<close>, having closed \<open>cn\<close> and marked \<open>h\<close> dead as its last two calls.
  Of the calls it has made, the health calls are a reset of each hop of \<open>pre\<close>, in
  order, then the one \<^verbatim>\<open>MarkDead\<close> of \<open>h\<close>; the one connection closed is \<open>cn\<close>; the dial
  is to the first hop, and the connect-through and handshake calls go to the hops up to
  \<open>h\<close> and to none of \<open>post\<close>.
\<close>

theorem getConn_failure_at_later_hop:
  assumes "pre \<noteq> []" and "Nodes cp = pre" and "Nodes c = pre @ h # post"
    and "getConn E (Some cp) w = (Ret (Some cn, None), w1)"
    and "connect_handshake E (last pre) cn h w1 = (Ret (Inl e), w2)"
  shows "getConn E (Some c) w = (Ret (None, Some e), MarkDead E h (Close E cn w2)) \<and>
    (let T = new_events w (snd (getConn E (Some c) w)) in
       health_events T = map EvResetDead pre @ [EvMarkDead h] \<and>
       closed_conns T = [cn] \<and>
       dialed T = [hd pre] \<and>
       connect_targets T = map Addr (tl pre) @ [Addr h] \<and>
       (handshaken T = pre \<or> handshaken T = pre @ [h]) \<and>
       drop (length T - 2) T = [EvClose cn, EvMarkDead h])"
proof -
  obtain n xs where pre: "pre = n # xs"
    using assms(1) by (cases pre) auto
  have run: "getConn E (Some c) w = (Ret (None, Some e), MarkDead E h (Close E cn w2))"
    using getConn_prefix [OF assms(1-4)] assms(5)
    by (simp add: getConn_loop_step del: getConn_loop.simps)
  from getConn_ok_events [OF assms(2) [unfolded pre] assms(4)] obtain T1 where
    T1: "trace w1 = trace w @ T1" "health_events T1 = map EvResetDead pre"
        "closed_conns T1 = []" "dialed T1 = [hd pre]" "connect_targets T1 = map Addr (tl pre)"
        "handshaken T1 = pre"
    unfolding pre by auto
  from connect_handshake_fail [OF assms(5)] obtain T2 where
    T2: "trace w2 = trace w1 @ T2" and
    T2_cases: "T2 = [EvConnect (last pre) cn (Addr h)] \<or>
               (\<exists>cc0. T2 = [EvConnect (last pre) cn (Addr h), EvHandshake h cc0])"
    by auto
  define T where "T = T1 @ T2 @ [EvClose cn, EvMarkDead h]"
  have "trace (MarkDead E h (Close E cn w2)) = trace w @ T"
    using T1(1) T2 by (simp add: T_def MarkDead_def Close_def)
  then have new: "new_events w (MarkDead E h (Close E cn w2)) = T"
    by (rule new_events_append)
  have h2: "health_events T2 = []" "closed_conns T2 = []" "dialed T2 = []"
      "connect_targets T2 = [Addr h]"
    using T2_cases by (auto simp: obs_defs)
  have hs2: "handshaken T2 = [] \<or> handshaken T2 = [h]"
    using T2_cases by (auto simp: obs_defs)
  have app: "health_events T = health_events T1 @ health_events T2 @ [EvMarkDead h]"
      "closed_conns T = closed_conns T1 @ closed_conns T2 @ [cn]"
      "dialed T = dialed T1 @ dialed T2"
      "connect_targets T = connect_targets T1 @ connect_targets T2"
      "handshaken T = handshaken T1 @ handshaken T2"
    by (simp_all add: T_def obs_defs)
  have "health_events T = map EvResetDead pre @ [EvMarkDead h]"
    by (simp add: app T1 h2)
  moreover have "closed_conns T = [cn]"
    by (simp add: app T1 h2)
  moreover have "dialed T = [hd pre]"
    by (simp add: app T1 h2)
  moreover have "connect_targets T = map Addr (tl pre) @ [Addr h]"
    by (simp add: app T1 h2)
  moreover have "handshaken T = pre \<or> handshaken T = pre @ [h]"
    using hs2 by (auto simp: app T1)
  moreover have "drop (length T - 2) T = [EvClose cn, EvMarkDead h]"
    by (simp add: T_def)
  ultimately show ?thesis
    using run by (simp add: new Let_def)
qed

theorem getConn_failure_at_later_hop_witness:
  "getConn (sim 0) (Some (newRoute [hop 1 ''a'' 0 False, hop 2 ''bad'' 0 False, hop 3 ''c'' 0 False])) w0 =
     (Ret (None, Some (ErrExternal 7)),
      \<lparr>ext = 1,
       trace = [EvDial (hop 1 ''a'' 0 False), EvHandshake (hop 1 ''a'' 0 False) 100,
                EvResetDead (hop 1 ''a'' 0 False), EvConnect (hop 1 ''a'' 0 False) 100 ''bad'',
                EvClose 100, EvMarkDead (hop 2 ''bad'' 0 False)]\<rparr>)"
proof -
  have nodes_pre: "Nodes (newRoute [hop 1 ''a'' 0 False]) = [hop 1 ''a'' 0 False]"
    by (simp add: newRoute_def NewChain_def NewNodeGroup_def Nodes_def group_Nodes_def)
  have nodes_all:
    "Nodes (newRoute [hop 1 ''a'' 0 False, hop 2 ''bad'' 0 False, hop 3 ''c'' 0 False]) =
       [hop 1 ''a'' 0 False] @ hop 2 ''bad'' 0 False # [hop 3 ''c'' 0 False]"
    by (simp add: newRoute_def NewChain_def NewNodeGroup_def Nodes_def group_Nodes_def)
  have pre_ok: "getConn (sim 0) (Some (newRoute [hop 1 ''a'' 0 False])) w0 =
      (Ret (Some 100, None),
       \<lparr>ext = 1, trace = [EvDial (hop 1 ''a'' 0 False), EvHandshake (hop 1 ''a'' 0 False) 100,
                          EvResetDead (hop 1 ''a'' 0 False)]\<rparr>)"
    by (simp add: getConn_def newRoute_def NewChain_def NewNodeGroup_def Nodes_def group_Nodes_def
        hop_def call_def sim_def w0_def ResetDead_def effect_def)
  have fail: "connect_handshake (sim 0) (last [hop 1 ''a'' 0 False]) 100 (hop 2 ''bad'' 0 False)
       \<lparr>ext = 1, trace = [EvDial (hop 1 ''a'' 0 False), EvHandshake (hop 1 ''a'' 0 False) 100,
                          EvResetDead (hop 1 ''a'' 0 False)]\<rparr> =
      (Ret (Inl (ErrExternal 7)),
       \<lparr>ext = 1, trace = [EvDial (hop 1 ''a'' 0 False), EvHandshake (hop 1 ''a'' 0 False) 100,
                          EvResetDead (hop 1 ''a'' 0 False), EvConnect (hop 1 ''a'' 0 False) 100 ''bad'']\<rparr>)"
    by (simp add: connect_handshake_def hop_def call_def sim_def)
  have ne: "[hop 1 ''a'' 0 False] \<noteq> []" by simp
  show ?thesis
    using getConn_failure_at_later_hop [OF ne nodes_pre nodes_all pre_ok fail]
    by (simp add: MarkDead_def Close_def effect_def sim_def)
qed

section \<open>The retry loops\<close>

lemma after_0 [simp]: "after f 0 w = w"
  by (simp add: after_def)

lemma after_Suc: "after f (Suc k) w = after f k (snd (f w))"
  by (simp add: after_def funpow_Suc_right del: funpow.simps)

lemma after_Suc_right: "after f (Suc k) w = snd (f (after f k w))"
  by (simp add: after_def)

lemma attempt_result_0 [simp]: "attempt_result f 0 w = fst (f w)"
  by (simp add: attempt_result_def)

lemma attempt_result_Suc: "attempt_result f (Suc k) w = attempt_result f k (snd (f w))"
  by (simp add: attempt_result_def after_Suc)

lemma fails_iff: "fails r \<longleftrightarrow> (\<exists>cn e. r = Ret (cn, Some e))"
  by (cases r rule: fails.cases) auto

lemma retry_Suc_fail:
  "fst (f w) = Ret (cn0, Some e0) \<Longrightarrow>
   retry f (Suc n) acc w = retry f n (cn0, Some e0) (snd (f w))"
  by (cases "f w") simp

lemma retry_Suc_stop:
  "\<not> fails (fst (f w)) \<Longrightarrow> retry f (Suc n) acc w = f w"
  by (cases "f w"; cases "fst (f w)" rule: fails.cases) auto

lemma retry_first_success:
  "k < n \<Longrightarrow> (\<forall>j<k. fails (attempt_result f j w)) \<Longrightarrow>
   attempt_result f k w = Ret (cn, None) \<Longrightarrow>
   retry f n acc w = (Ret (cn, None), after f (Suc k) w)"
proof (induction k arbitrary: n acc w)
  case 0
  then obtain n' where n: "n = Suc n'" by (cases n) auto
  have "\<not> fails (fst (f w))"
    using 0(3) by simp
  then have "retry f n acc w = f w"
    unfolding n by (rule retry_Suc_stop)
  then show ?case
    using 0(3) by (simp add: after_Suc_right prod_eq_iff)
next
  case (Suc k)
  then obtain n' where n: "n = Suc n'" by (cases n) auto
  have "fails (attempt_result f 0 w)"
    using Suc.prems(2) by blast
  then obtain cn0 e0 where f0: "fst (f w) = Ret (cn0, Some e0)"
    by (auto simp: fails_iff)
  have step: "retry f n acc w = retry f n' (cn0, Some e0) (snd (f w))"
    unfolding n using f0 by (rule retry_Suc_fail)
  have "\<forall>j<k. fails (attempt_result f j (snd (f w)))"
    using Suc.prems(2) by (auto simp: attempt_result_Suc [symmetric])
  moreover have "attempt_result f k (snd (f w)) = Ret (cn, None)"
    using Suc.prems(3) by (simp add: attempt_result_Suc)
  moreover have "k < n'"
    using Suc.prems(1) n by simp
  ultimately have "retry f n' (cn0, Some e0) (snd (f w)) = (Ret (cn, None), after f (Suc k) (snd (f w)))"
    by (rule Suc.IH [rotated 1])
  then show ?case
    by (simp add: step after_Suc [of f "Suc k" w] del: retry.simps)
qed

lemma retry_all_fail:
  "(\<forall>j\<le>n. fails (attempt_result f j w)) \<Longrightarrow>
   retry f (Suc n) acc w = (attempt_result f n w, after f (Suc n) w)"
proof (induction n arbitrary: acc w)
  case 0
  then obtain cn0 e0 where f0: "fst (f w) = Ret (cn0, Some e0)"
    by (auto simp: fails_iff)
  then have "retry f (Suc 0) acc w = retry f 0 (cn0, Some e0) (snd (f w))"
    by (rule retry_Suc_fail)
  then show ?case
    using f0 by (simp add: after_Suc_right)
next
  case (Suc n)
  have "fails (attempt_result f 0 w)"
    using Suc.prems by blast
  then obtain cn0 e0 where f0: "fst (f w) = Ret (cn0, Some e0)"
    by (auto simp: fails_iff)
  have step: "retry f (Suc (Suc n)) acc w = retry f (Suc n) (cn0, Some e0) (snd (f w))"
    using f0 by (rule retry_Suc_fail)
  have "\<forall>j\<le>n. fails (attempt_result f j (snd (f w)))"
    using Suc.prems by (auto simp: attempt_result_Suc [symmetric])
  then have "retry f (Suc n) (cn0, Some e0) (snd (f w)) =
      (attempt_result f n (snd (f w)), after f (Suc n) (snd (f w)))"
    by (rule Suc.IH)
  then show ?case
    by (simp add: step after_Suc [of f "Suc n" w] attempt_result_Suc del: retry.simps)
qed

lemma retry_run:
  "\<exists>m\<le>n. snd (retry f n acc w) = after f m w \<and>
     (0 < n \<longrightarrow> 0 < m \<and> fst (retry f n acc w) = attempt_result f (m - 1) w) \<and>
     (\<forall>j. Suc j < m \<longrightarrow> fails (attempt_result f j w)) \<and>
     (m < n \<longrightarrow> \<not> fails (attempt_result f (m - 1) w))"
proof (induction n arbitrary: acc w)
  case 0
  show ?case by simp
next
  case (Suc n)
  show ?case
  proof (cases "fails (fst (f w))")
    case False
    then have "retry f (Suc n) acc w = f w"
      by (rule retry_Suc_stop)
    then have "snd (retry f (Suc n) acc w) = after f 1 w \<and>
        fst (retry f (Suc n) acc w) = attempt_result f 0 w"
      by (simp add: after_Suc_right)
    with False show ?thesis
      by (intro exI [of _ 1]) simp
  next
    case True
    then obtain cn0 e0 where f0: "fst (f w) = Ret (cn0, Some e0)"
      by (auto simp: fails_iff)
    have step: "retry f (Suc n) acc w = retry f n (cn0, Some e0) (snd (f w))"
      using f0 by (rule retry_Suc_fail)
    from Suc.IH [of "(cn0, Some e0)" "snd (f w)"] obtain m where
      m: "m \<le> n" "snd (retry f n (cn0, Some e0) (snd (f w))) = after f m (snd (f w))"
         "0 < n \<longrightarrow> 0 < m \<and> fst (retry f n (cn0, Some e0) (snd (f w))) = attempt_result f (m - 1) (snd (f w))"
         "\<forall>j. Suc j < m \<longrightarrow> fails (attempt_result f j (snd (f w)))"
         "m < n \<longrightarrow> \<not> fails (attempt_result f (m - 1) (snd (f w)))"
      by blast
    have a: "snd (retry f (Suc n) acc w) = after f (Suc m) w"
      using m(2) by (simp add: step after_Suc del: retry.simps)
    have b: "fst (retry f (Suc n) acc w) = attempt_result f (Suc m - 1) w"
    proof (cases "n = 0")
      case True
      then show ?thesis using m(1) f0 step by simp
    next
      case False
      then have "0 < m" and "fst (retry f n (cn0, Some e0) (snd (f w))) = attempt_result f (m - 1) (snd (f w))"
        using m(3) by simp_all
      then show ?thesis
        by (cases m) (simp_all add: step attempt_result_Suc del: retry.simps)
    qed
    have c: "\<forall>j. Suc j < Suc m \<longrightarrow> fails (attempt_result f j w)"
    proof (intro allI impI)
      fix j assume "Suc j < Suc m"
      show "fails (attempt_result f j w)"
      proof (cases j)
        case 0
        then show ?thesis using True by simp
      next
        case (Suc i)
        then have "Suc i < m" using \<open>Suc j < Suc m\<close> by simp
        then show ?thesis using m(4) Suc by (simp add: attempt_result_Suc)
      qed
    qed
    have d: "Suc m < Suc n \<longrightarrow> \<not> fails (attempt_result f (Suc m - 1) w)"
    proof
      assume "Suc m < Suc n"
      then have mn: "m < n" by simp
      then have "0 < m" using m(3) by simp
      then show "\<not> fails (attempt_result f (Suc m - 1) w)"
        using m(5) mn by (cases m) (simp_all add: attempt_result_Suc)
    qed
    show ?thesis
      using m(1) a b c d by (intro exI [of _ "Suc m"]) simp
  qed
qed

lemma Dial_loop_retry: "Dial_loop E c addr n acc w = retry (dial E c addr) n acc w"
  by (induction n arbitrary: acc w) (auto split: prod.splits res.splits)

lemma dial_shape:
  "dial E c addr w = (Ret (cn, e), w') \<Longrightarrow> (cn = None) \<noteq> (e = None)"
  by (auto simp: dial_def split: prod.splits res.splits option.splits sum.splits)

lemma Conn_body_None:
  "fst acc = None \<Longrightarrow> Conn_body E c acc w = Conn_body E c (None, None) w"
  by (cases acc) (simp add: Conn_body_def split: prod.splits res.splits option.splits)

lemma Conn_body_Inl:
  "Conn_body E c acc w = (Ret (Inl a), w') \<Longrightarrow> fst acc = None \<Longrightarrow> \<exists>e. a = (None, Some e)"
  by (auto simp: Conn_body_def dest: getConn_shape
      split: prod.splits res.splits option.splits)

lemma Conn_body_Inr:
  "Conn_body E c acc w = (Ret (Inr a), w') \<Longrightarrow> \<exists>cn. a = (Some cn, None)"
  by (auto simp: Conn_body_def dest: getConn_shape
      split: prod.splits res.splits option.splits)

lemma Conn_attempt_shape:
  "Conn_attempt E c w = (Ret (cn, e), w') \<Longrightarrow> (cn = None) \<noteq> (e = None)"
  by (auto simp: Conn_attempt_def dest: Conn_body_Inr Conn_body_Inl [where acc = "(None, None)"]
      split: prod.splits res.splits sum.splits)

lemma Conn_loop_retry:
  "fst acc = None \<Longrightarrow> Conn_loop E c n acc w = retry (Conn_attempt E c) n acc w"
proof (induction n arbitrary: acc w)
  case 0
  show ?case by simp
next
  case (Suc n)
  have body: "Conn_body E c acc w = Conn_body E c (None, None) w"
    using Suc.prems by (rule Conn_body_None)
  show ?case
  proof (cases "Conn_body E c (None, None) w")
    case (Pair r w1)
    show ?thesis
    proof (cases r)
      case Panic
      then show ?thesis using Pair body by (simp add: Conn_attempt_def)
    next
      case (Ret s)
      show ?thesis
      proof (cases s)
        case (Inl a)
        then obtain e where a: "a = (None, Some e)"
          using Conn_body_Inl [of E c "(None, None)" w a w1] Pair Ret by auto
        have "Conn_loop E c (Suc n) acc w = Conn_loop E c n (None, Some e) w1"
          using Pair Ret Inl a body by simp
        also have "\<dots> = retry (Conn_attempt E c) n (None, Some e) w1"
          by (rule Suc.IH) simp
        also have "\<dots> = retry (Conn_attempt E c) (Suc n) acc w"
          using Pair Ret Inl a by (simp add: Conn_attempt_def)
        finally show ?thesis .
      next
        case (Inr a)
        then obtain cn where a: "a = (Some cn, None)"
          using Conn_body_Inr [of E c "(None, None)" w a w1] Pair Ret by auto
        show ?thesis
          using Pair Ret Inr a body by (simp add: Conn_attempt_def)
      qed
    qed
  qed
qed

lemma Dial_retry:
  "nodeGroups c \<noteq> [] \<Longrightarrow>
   Dial E (Some c) addr w = retry (dial E c addr) (attempts (Retries c)) (None, None) w"
  by (simp add: Dial_def Dial_loop_retry)

lemma Conn_retry:
  "Conn E (Some c) w = retry (Conn_attempt E c) (attempts (Retries c)) (None, None) w"
  by (simp add: Conn_def Conn_loop_retry)

lemma fails_shape:
  assumes "fails (fst (f w))" and "\<And>cn e w'. f w = (Ret (cn, e), w') \<Longrightarrow> (cn = None) \<noteq> (e = None)"
  shows "\<exists>e. fst (f w) = Ret (None, Some e)"
proof -
  from assms(1) obtain cn e where r: "fst (f w) = Ret (cn, Some e)"
    by (auto simp: fails_iff)
  then have "f w = (Ret (cn, Some e), snd (f w))"
    by (simp add: prod_eq_iff)
  from assms(2) [OF this] have "cn = None" by simp
  with r show ?thesis by blast
qed

lemma retry_budget:
  assumes shape: "\<And>cn e w w'. f w = (Ret (cn, e), w') \<Longrightarrow> (cn = None) \<noteq> (e = None)"
  shows
    "(\<exists>m\<le>Suc r. 0 < m \<and> snd (retry f (Suc r) acc w) = after f m w) \<and>
     (\<forall>k cn. k \<le> r \<and> (\<forall>j<k. fails (attempt_result f j w)) \<and>
              attempt_result f k w = Ret (Some cn, None) \<longrightarrow>
              retry f (Suc r) acc w = (Ret (Some cn, None), after f (Suc k) w)) \<and>
     ((\<forall>j\<le>r. fails (attempt_result f j w)) \<longrightarrow>
        (\<exists>e. attempt_result f r w = Ret (None, Some e) \<and>
             retry f (Suc r) acc w = (Ret (None, Some e), after f (Suc r) w)))"
proof (intro conjI allI impI)
  from retry_run [of "Suc r" f acc w]
  show "\<exists>m\<le>Suc r. 0 < m \<and> snd (retry f (Suc r) acc w) = after f m w"
    by auto
next
  fix k cn
  assume a: "k \<le> r \<and> (\<forall>j<k. fails (attempt_result f j w)) \<and>
      attempt_result f k w = Ret (Some cn, None)"
  then have "k < Suc r" by simp
  then show "retry f (Suc r) acc w = (Ret (Some cn, None), after f (Suc k) w)"
    using a by (intro retry_first_success) simp_all
next
  assume a: "\<forall>j\<le>r. fails (attempt_result f j w)"
  then have run: "retry f (Suc r) acc w = (attempt_result f r w, after f (Suc r) w)"
    by (rule retry_all_fail)
  have "fails (fst (f (after f r w)))"
    using a by (simp add: attempt_result_def)
  then obtain e where "fst (f (after f r w)) = Ret (None, Some e)"
    using fails_shape [of f "after f r w"] shape by blast
  then show "\<exists>e. attempt_result f r w = Ret (None, Some e) \<and>
             retry f (Suc r) acc w = (Ret (None, Some e), after f (Suc r) w)"
    using run by (simp add: attempt_result_def)
qed

lemmas run_defs = attempt_result_def after_def dial_def Conn_attempt_def Conn_body_def
  selectRoute_def getConn_def call_def set_Retries_def newRoute_def NewChain_def AddNode_def
  NewNodeGroup_def Nodes_def group_Nodes_def LastNode_def Clone_def
  MarkDead_def ResetDead_def Close_def effect_def hop_def sim_def w0_def

text \<open>
  What the retry loops do whenever \<^verbatim>\<open>c.Retries+1\<close> does not overflow: for a non-empty
  chain whose \<^verbatim>\<open>Retries\<close> is \<open>r\<close>, at least 0 and not the largest \<^verbatim>\<open>int\<close>, \<^verbatim>\<open>Dial\<close> makes
  at least one and at most \<open>r + 1\<close> attempts, each a run of \<^verbatim>\<open>dial\<close> from the world
  the attempt before left.  If attempt
  \<open>k \<le> r\<close> is the first to succeed, \<^verbatim>\<open>Dial\<close> returns its connection with a nil error
  after \<open>k + 1\<close> attempts; if all \<open>r + 1\<close> attempts fail, it returns a nil connection
  with the error of the last one.  \<^verbatim>\<open>Conn\<close> does the same with its own attempts
  (resolve the route, build the connection).
\<close>

theorem retries_first_success_last_error:
  assumes "nodeGroups c \<noteq> []" and "0 \<le> sint (Retries c)" and "Retries c \<noteq> MaxInt"
  shows
    "((\<exists>m\<le>Suc (nat (sint (Retries c))). 0 < m \<and>
         snd (Dial E (Some c) addr w) = after (dial E c addr) m w) \<and>
      (\<forall>k cn. k \<le> nat (sint (Retries c)) \<and>
              (\<forall>j<k. fails (attempt_result (dial E c addr) j w)) \<and>
              attempt_result (dial E c addr) k w = Ret (Some cn, None) \<longrightarrow>
              Dial E (Some c) addr w = (Ret (Some cn, None), after (dial E c addr) (Suc k) w)) \<and>
      ((\<forall>j\<le>nat (sint (Retries c)). fails (attempt_result (dial E c addr) j w)) \<longrightarrow>
         (\<exists>e. attempt_result (dial E c addr) (nat (sint (Retries c))) w = Ret (None, Some e) \<and>
              Dial E (Some c) addr w =
                (Ret (None, Some e), after (dial E c addr) (Suc (nat (sint (Retries c)))) w)))) \<and>
     ((\<exists>m\<le>Suc (nat (sint (Retries c))). 0 < m \<and>
         snd (Conn E (Some c) w) = after (Conn_attempt E c) m w) \<and>
      (\<forall>k cn. k \<le> nat (sint (Retries c)) \<and>
              (\<forall>j<k. fails (attempt_result (Conn_attempt E c) j w)) \<and>
              attempt_result (Conn_attempt E c) k w = Ret (Some cn, None) \<longrightarrow>
              Conn E (Some c) w = (Ret (Some cn, None), after (Conn_attempt E c) (Suc k) w)) \<and>
      ((\<forall>j\<le>nat (sint (Retries c)). fails (attempt_result (Conn_attempt E c) j w)) \<longrightarrow>
         (\<exists>e. attempt_result (Conn_attempt E c) (nat (sint (Retries c))) w = Ret (None, Some e) \<and>
              Conn E (Some c) w =
                (Ret (None, Some e), after (Conn_attempt E c) (Suc (nat (sint (Retries c)))) w))))"
proof -
  have n: "attempts (Retries c) = Suc (nat (sint (Retries c)))"
    using assms(2,3) by (rule attempts_nonneg)
  have D: "Dial E (Some c) addr w =
      retry (dial E c addr) (Suc (nat (sint (Retries c)))) (None, None) w"
    using assms(1) by (simp add: Dial_retry n del: retry.simps)
  have C: "Conn E (Some c) w =
      retry (Conn_attempt E c) (Suc (nat (sint (Retries c)))) (None, None) w"
    by (simp add: Conn_retry n del: retry.simps)
  show ?thesis
    unfolding D C
    by (intro conjI retry_budget [THEN conjunct1] retry_budget [THEN conjunct2, THEN conjunct1]
        retry_budget [THEN conjunct2, THEN conjunct2])
      (erule dial_shape Conn_attempt_shape)+
qed

theorem retries_first_success_last_error_witness:
  "Dial (sim 2) (Some (Chain False 2 [NewNodeGroup [hop 1 ''a'' 0 False]])) ''dst'' w0 =
     (Ret (Some 101, None),
      after (dial (sim 2) (Chain False 2 [NewNodeGroup [hop 1 ''a'' 0 False]]) ''dst'') 3 w0) \<and>
   Conn (sim 2) (Some (Chain False 2 [NewNodeGroup [hop 1 ''a'' 0 False]])) w0 =
     (Ret (Some 100, None),
      after (Conn_attempt (sim 2) (Chain False 2 [NewNodeGroup [hop 1 ''a'' 0 False]])) 3 w0) \<and>
   Dial (sim 5) (Some (Chain False 2 [NewNodeGroup [hop 1 ''a'' 0 False]])) ''dst'' w0 =
     (Ret (None, Some (ErrExternal 3)),
      after (dial (sim 5) (Chain False 2 [NewNodeGroup [hop 1 ''a'' 0 False]]) ''dst'') 3 w0)"
proof -
  let ?c = "Chain False 2 [NewNodeGroup [hop 1 ''a'' 0 False]]"
  have pre: "nodeGroups ?c \<noteq> []" "0 \<le> sint (Retries ?c)" "Retries ?c \<noteq> MaxInt"
    by (simp_all add: MaxInt_def)
  have r: "nat (sint (Retries ?c)) = 2" by simp
  have d0: "attempt_result (dial (sim 2) ?c ''dst'') 0 w0 = Ret (None, Some (ErrExternal 1))"
    by (simp add: run_defs)
  have d1: "attempt_result (dial (sim 2) ?c ''dst'') (Suc 0) w0 = Ret (None, Some (ErrExternal 2))"
    by (simp add: run_defs)
  have d2: "attempt_result (dial (sim 2) ?c ''dst'') 2 w0 = Ret (Some 101, None)"
    by (simp add: run_defs numeral_2_eq_2)
  have c0: "attempt_result (Conn_attempt (sim 2) ?c) 0 w0 = Ret (None, Some (ErrExternal 1))"
    by (simp add: run_defs)
  have c1: "attempt_result (Conn_attempt (sim 2) ?c) (Suc 0) w0 = Ret (None, Some (ErrExternal 2))"
    by (simp add: run_defs)
  have c2: "attempt_result (Conn_attempt (sim 2) ?c) 2 w0 = Ret (Some 100, None)"
    by (simp add: run_defs numeral_2_eq_2)
  have e0: "attempt_result (dial (sim 5) ?c ''dst'') 0 w0 = Ret (None, Some (ErrExternal 1))"
    by (simp add: run_defs)
  have e1: "attempt_result (dial (sim 5) ?c ''dst'') (Suc 0) w0 = Ret (None, Some (ErrExternal 2))"
    by (simp add: run_defs)
  have e2: "attempt_result (dial (sim 5) ?c ''dst'') 2 w0 = Ret (None, Some (ErrExternal 3))"
    by (simp add: run_defs numeral_2_eq_2)
  have dfail: "\<forall>j<2. fails (attempt_result (dial (sim 2) ?c ''dst'') j w0)"
    using d0 d1 by (simp add: numeral_2_eq_2 less_Suc_eq)
  have cfail: "\<forall>j<2. fails (attempt_result (Conn_attempt (sim 2) ?c) j w0)"
    using c0 c1 by (simp add: numeral_2_eq_2 less_Suc_eq)
  have efail: "\<forall>j\<le>2. fails (attempt_result (dial (sim 5) ?c ''dst'') j w0)"
    using e0 e1 e2 by (simp add: numeral_2_eq_2 le_Suc_eq)
  note inst2 = retries_first_success_last_error [OF pre, of "sim 2" "''dst''" w0, unfolded r]
  note inst5 = retries_first_success_last_error [OF pre, of "sim 5" "''dst''" w0, unfolded r]
  have A: "Dial (sim 2) (Some ?c) ''dst'' w0 =
      (Ret (Some 101, None), after (dial (sim 2) ?c ''dst'') (Suc 2) w0)"
    using inst2 dfail d2 by blast
  have B: "Conn (sim 2) (Some ?c) w0 =
      (Ret (Some 100, None), after (Conn_attempt (sim 2) ?c) (Suc 2) w0)"
    using inst2 cfail c2 by blast
  have C: "Dial (sim 5) (Some ?c) ''dst'' w0 =
      (Ret (None, Some (ErrExternal 3)), after (dial (sim 5) ?c ''dst'') (Suc 2) w0)"
    using inst5 efail e2 by force
  have three: "Suc 2 = 3" by simp
  show ?thesis
    using A B C unfolding three by blast
qed

text \<open>
  C4, at a non-empty chain whose \<^verbatim>\<open>Retries\<close> is the largest \<^verbatim>\<open>int\<close> (which is at least
  0): the bound \<^verbatim>\<open>c.Retries+1\<close> overflows to the smallest \<^verbatim>\<open>int\<close>, so no attempt is made,
  though one would succeed, and \<^verbatim>\<open>Dial\<close> and \<^verbatim>\<open>Conn\<close> return a nil connection with a
  nil error: neither the connection of a first successful attempt nor the error of a
  last failed one.
\<close>

theorem Dial_MaxInt_makes_no_attempt:
  "nodeGroups (Chain False 0x7FFFFFFFFFFFFFFF [NewNodeGroup [hop 1 ''a'' 0 False]]) \<noteq> [] \<and>
   0 \<le> sint (Retries (Chain False 0x7FFFFFFFFFFFFFFF [NewNodeGroup [hop 1 ''a'' 0 False]])) \<and>
   fst (dial (sim 0) (Chain False 0x7FFFFFFFFFFFFFFF [NewNodeGroup [hop 1 ''a'' 0 False]]) ''dst'' w0) =
     Ret (Some 101, None) \<and>
   Dial (sim 0) (Some (Chain False 0x7FFFFFFFFFFFFFFF [NewNodeGroup [hop 1 ''a'' 0 False]])) ''dst'' w0 =
     (Ret (None, None), w0) \<and>
   Conn (sim 0) (Some (Chain False 0x7FFFFFFFFFFFFFFF [NewNodeGroup [hop 1 ''a'' 0 False]])) w0 =
     (Ret (None, None), w0)"
  by (simp add: Dial_def Conn_def attempts_def run_defs)

section \<open>Every attempt resolves the route afresh\<close>

lemma starts_with_append [simp]: "starts_with xs (xs @ ys)"
  by (simp add: starts_with_def)


lemma starts_with_refl [simp]: "starts_with xs xs"
  by (simp add: starts_with_def)





lemma selected_map_EvNext [simp]: "selected (map EvNext gs) = gs"
  by (induction gs) (simp_all add: selected_def)

lemma selected_Nil [simp]: "selected [] = []"
  by (simp add: selected_def)

lemma selected_append [simp]: "selected (xs @ ys) = selected xs @ selected ys"
  by (simp add: selected_def)

lemma selected_EvLog [simp]: "selected [EvLog l] = []"
  by (simp add: selected_def)


lemma starts_with_call: "starts_with (trace w) (trace (snd (call ev f w)))"
  by (simp add: call_def split: prod.splits)










section \<open>Resolved routes hold singleton groups\<close>

lemma routes_ok_newRoute:
  "list_all node_ok ns \<Longrightarrow>
   isRoute (newRoute ns) \<and> singletons (newRoute ns) \<and> routes_ok (newRoute ns)"
  by (induction ns)
    (auto simp: newRoute_def NewChain_def NewNodeGroup_def singletons_def list_all_iff)

lemma singletons_AddNode:
  "singletons c \<Longrightarrow> singletons (the (AddNode (Some c) ns))"
  by (cases c) (auto simp: AddNode_def NewNodeGroup_def singletons_def list_all_iff)

lemma isRoute_AddNode [simp]: "isRoute (the (AddNode (Some c) ns)) = isRoute c"
  by (cases c) (simp add: AddNode_def)

lemma routes_ok_AddNode:
  "routes_ok c \<Longrightarrow> list_all node_ok ns \<Longrightarrow> routes_ok (the (AddNode (Some c) ns))"
  by (cases c) (auto simp: AddNode_def NewNodeGroup_def list_all_iff)

lemma empty_route_ok:
  "isRoute (set_Retries k (newRoute [])) \<and> singletons (set_Retries k (newRoute [])) \<and>
   routes_ok (set_Retries k (newRoute []))"
  by (simp add: set_Retries_def newRoute_def NewChain_def singletons_def)

lemma selectRoute_loop_singletons:
  "selectRoute_loop E k gs buf route w = (Ret (Inr (b, r)), w') \<Longrightarrow>
   isRoute route \<Longrightarrow> singletons route \<Longrightarrow> isRoute r \<and> singletons r"
proof (induction gs arbitrary: buf route w)
  case Nil
  then show ?case by simp
next
  case (Cons g gs)
  obtain res x where gn: "Group_Next E g (ext w) = (res, x)"
    by (cases "Group_Next E g (ext w)")
  define w1 where "w1 = \<lparr>ext = x, trace = trace w @ [EvNext g]\<rparr>"
  have c: "call (EvNext g) (Group_Next E g) w = (res, w1)"
    using gn by (simp add: call_def w1_def)
  from Cons.prems(1) c obtain n cl where n: "res = Inr n" "Client n = Some cl"
    by (cases res; cases "Client (projr res)") auto
  show ?case
  proof (cases "Multiplex (Transporter cl)")
    case True
    obtain i a dopts hopts where nn: "n = Node i a dopts hopts (Some cl)"
      using n(2) by (cases n) auto
    let ?n1 = "Node i a (dopts @ [ChainDialOption route]) hopts (Some cl)"
    let ?r1 = "the (AddNode (Some (set_Retries k (newRoute []))) [?n1])"
    have "selectRoute_loop E k gs (buf @ Node_String E n @ '' -> '') ?r1 w1 = (Ret (Inr (b, r)), w')"
      using Cons.prems(1) c n True nn by (simp add: Let_def)
    moreover have "isRoute ?r1" "singletons ?r1"
      using empty_route_ok [of k] by (simp_all add: singletons_AddNode)
    ultimately show ?thesis by (rule Cons.IH)
  next
    case False
    let ?r1 = "the (AddNode (Some route) [n])"
    have "selectRoute_loop E k gs (buf @ Node_String E n @ '' -> '') ?r1 w1 = (Ret (Inr (b, r)), w')"
      using Cons.prems(1) c n False by (simp add: Let_def)
    moreover have "isRoute ?r1" "singletons ?r1"
      using Cons.prems(2,3) by (simp_all add: singletons_AddNode)
    ultimately show ?thesis by (rule Cons.IH)
  qed
qed

lemma selectRoute_loop_routes_ok:
  "selectRoute_loop E k gs buf route w = (Ret (Inr (b, r)), w') \<Longrightarrow>
   isRoute route \<Longrightarrow> singletons route \<Longrightarrow> routes_ok route \<Longrightarrow>
   (\<forall>g\<in>set gs. \<forall>x n. fst (Group_Next E g x) = Inr n \<longrightarrow> node_ok n) \<Longrightarrow>
   routes_ok r"
proof (induction gs arbitrary: buf route w)
  case Nil
  then show ?case by simp
next
  case (Cons g gs)
  obtain res x where gn: "Group_Next E g (ext w) = (res, x)"
    by (cases "Group_Next E g (ext w)")
  define w1 where "w1 = \<lparr>ext = x, trace = trace w @ [EvNext g]\<rparr>"
  have c: "call (EvNext g) (Group_Next E g) w = (res, w1)"
    using gn by (simp add: call_def w1_def)
  from Cons.prems(1) c obtain n cl where n: "res = Inr n" "Client n = Some cl"
    by (cases res; cases "Client (projr res)") auto
  have nok: "node_ok n"
    using Cons.prems(5) gn n(1) by (metis fst_conv list.set_intros(1))
  have rest: "\<forall>g\<in>set gs. \<forall>x n. fst (Group_Next E g x) = Inr n \<longrightarrow> node_ok n"
    using Cons.prems(5) by simp
  show ?case
  proof (cases "Multiplex (Transporter cl)")
    case True
    obtain i a dopts hopts where nn: "n = Node i a dopts hopts (Some cl)"
      using n(2) by (cases n) auto
    let ?n1 = "Node i a (dopts @ [ChainDialOption route]) hopts (Some cl)"
    let ?r1 = "the (AddNode (Some (set_Retries k (newRoute []))) [?n1])"
    have run: "selectRoute_loop E k gs (buf @ Node_String E n @ '' -> '') ?r1 w1 = (Ret (Inr (b, r)), w')"
      using Cons.prems(1) c n True nn by (simp add: Let_def)
    have n1ok: "node_ok ?n1"
      using nok Cons.prems(4) by (simp add: nn)
    have "isRoute ?r1" "singletons ?r1" "routes_ok ?r1"
      using empty_route_ok [of k] n1ok by (simp_all add: singletons_AddNode routes_ok_AddNode)
    then show ?thesis
      using run rest by (intro Cons.IH [of _ ?r1 w1])
  next
    case False
    let ?r1 = "the (AddNode (Some route) [n])"
    have run: "selectRoute_loop E k gs (buf @ Node_String E n @ '' -> '') ?r1 w1 = (Ret (Inr (b, r)), w')"
      using Cons.prems(1) c n False by (simp add: Let_def)
    have "isRoute ?r1" "singletons ?r1" "routes_ok ?r1"
      using Cons.prems(2,3,4) nok by (simp_all add: singletons_AddNode routes_ok_AddNode)
    then show ?thesis
      using run rest by (intro Cons.IH [of _ ?r1 w1])
  qed
qed

text \<open>
  C9: a chain marked as a resolved route holds singleton groups only, and this is kept
  by the operations that build and take routes.  \<^verbatim>\<open>newRoute\<close> yields a marked chain of
  singleton groups; \<^verbatim>\<open>AddNode\<close> keeps the marker and adds singleton groups; \<^verbatim>\<open>selectRoute\<close>
  returns a marked chain of singleton groups, either the route it was given, as it is,
  or one built by \<^verbatim>\<open>newRoute\<close> and \<^verbatim>\<open>AddNode\<close>.  The same holds to any depth for the
  routes sealed in dial options (\<open>routes_ok\<close>), when the hops that the groups select
  carry well-formed routes already.
\<close>

theorem resolved_routes_are_singletons:
  "isRoute (newRoute ns) \<and> singletons (newRoute ns) \<and>
   (list_all node_ok ns \<longrightarrow> routes_ok (newRoute ns)) \<and>
   isRoute (the (AddNode (Some c) ns)) = isRoute c \<and>
   (singletons c \<longrightarrow> singletons (the (AddNode (Some c) ns))) \<and>
   (routes_ok c \<and> list_all node_ok ns \<longrightarrow> routes_ok (the (AddNode (Some c) ns))) \<and>
   ((isRoute c \<longrightarrow> singletons c) \<and> selectRoute E c w = (Ret (Some r, None), w') \<longrightarrow>
      isRoute r \<and> singletons r) \<and>
   (routes_ok c \<and> (\<forall>g\<in>set (nodeGroups c). \<forall>x n. fst (Group_Next E g x) = Inr n \<longrightarrow> node_ok n) \<and>
    selectRoute E c w = (Ret (Some r, None), w') \<longrightarrow> routes_ok r)"
proof (intro conjI impI)
  show "isRoute (newRoute ns)" "singletons (newRoute ns)"
    by (simp_all add: newRoute_def NewChain_def NewNodeGroup_def singletons_def list_all_iff)
  show "list_all node_ok ns \<Longrightarrow> routes_ok (newRoute ns)"
    by (simp add: routes_ok_newRoute)
  show "isRoute (the (AddNode (Some c) ns)) = isRoute c"
    by simp
  show "singletons c \<Longrightarrow> singletons (the (AddNode (Some c) ns))"
    by (rule singletons_AddNode)
  show "routes_ok c \<and> list_all node_ok ns \<Longrightarrow> routes_ok (the (AddNode (Some c) ns))"
    by (simp add: routes_ok_AddNode)
next
  assume a: "(isRoute c \<longrightarrow> singletons c) \<and> selectRoute E c w = (Ret (Some r, None), w')"
  show "isRoute r" "singletons r"
  proof -
    have "isRoute r \<and> singletons r"
    proof (cases "isRoute c")
      case True
      then show ?thesis using a by (auto simp: selectRoute_def)
    next
      case False
      then obtain b w1 where
        loop: "selectRoute_loop E (Retries c) (nodeGroups c) [] (set_Retries (Retries c) (newRoute [])) w =
           (Ret (Inr (b, r)), w1)"
        using a by (auto simp: selectRoute_def split: prod.splits res.splits sum.splits)
      note e = empty_route_ok [of "Retries c"]
      show ?thesis
        by (rule selectRoute_loop_singletons [OF loop e [THEN conjunct1]
              e [THEN conjunct2, THEN conjunct1]])
    qed
    then show "isRoute r" "singletons r" by simp_all
  qed
next
  assume a: "routes_ok c \<and>
      (\<forall>g\<in>set (nodeGroups c). \<forall>x n. fst (Group_Next E g x) = Inr n \<longrightarrow> node_ok n) \<and>
      selectRoute E c w = (Ret (Some r, None), w')"
  show "routes_ok r"
  proof (cases "isRoute c")
    case True
    then show ?thesis using a by (auto simp: selectRoute_def)
  next
    case False
    then obtain b w1 where
      loop: "selectRoute_loop E (Retries c) (nodeGroups c) [] (set_Retries (Retries c) (newRoute [])) w =
         (Ret (Inr (b, r)), w1)"
      using a by (auto simp: selectRoute_def split: prod.splits res.splits sum.splits)
    note e = empty_route_ok [of "Retries c"]
    from a have env: "\<forall>g\<in>set (nodeGroups c). \<forall>x n. fst (Group_Next E g x) = Inr n \<longrightarrow> node_ok n"
      by simp
    show ?thesis
      by (rule selectRoute_loop_routes_ok [OF loop e [THEN conjunct1]
            e [THEN conjunct2, THEN conjunct1] e [THEN conjunct2, THEN conjunct2] env])
  qed
qed

theorem resolved_routes_are_singletons_witness:
  "selectRoute (sim 0)
     (Chain False 0 [NewNodeGroup [hop 1 ''a'' 0 True], NewNodeGroup [hop 2 ''b'' 0 False]]) w0 =
     (Ret (Some (Chain True 0
                   [NodeGroup [Node 1 ''a'' [ChainDialOption (Chain True 0 [])] []
                                 (Some (MkClient 0 (MkTransporter 0 True)))] [],
                    NodeGroup [hop 2 ''b'' 0 False] []]), None),
      \<lparr>ext = 0, trace = [EvNext (NewNodeGroup [hop 1 ''a'' 0 True]),
                         EvNext (NewNodeGroup [hop 2 ''b'' 0 False])]\<rparr>) \<and>
   isRoute (Chain True 0
              [NodeGroup [Node 1 ''a'' [ChainDialOption (Chain True 0 [])] []
                            (Some (MkClient 0 (MkTransporter 0 True)))] [],
               NodeGroup [hop 2 ''b'' 0 False] []]) \<and>
   singletons (Chain True 0
              [NodeGroup [Node 1 ''a'' [ChainDialOption (Chain True 0 [])] []
                            (Some (MkClient 0 (MkTransporter 0 True)))] [],
               NodeGroup [hop 2 ''b'' 0 False] []]) \<and>
   routes_ok (Chain True 0
              [NodeGroup [Node 1 ''a'' [ChainDialOption (Chain True 0 [])] []
                            (Some (MkClient 0 (MkTransporter 0 True)))] [],
               NodeGroup [hop 2 ''b'' 0 False] []])"
proof -
  let ?c = "Chain False 0 [NewNodeGroup [hop 1 ''a'' 0 True], NewNodeGroup [hop 2 ''b'' 0 False]]"
  let ?r = "Chain True 0
              [NodeGroup [Node 1 ''a'' [ChainDialOption (Chain True 0 [])] []
                            (Some (MkClient 0 (MkTransporter 0 True)))] [],
               NodeGroup [hop 2 ''b'' 0 False] []]"
  let ?w = "\<lparr>ext = 0, trace = [EvNext (NewNodeGroup [hop 1 ''a'' 0 True]),
                         EvNext (NewNodeGroup [hop 2 ''b'' 0 False])]\<rparr> :: nat world"
  have run: "selectRoute (sim 0) ?c w0 = (Ret (Some ?r, None), ?w)"
    by (simp add: run_defs)
  have h1: "isRoute ?c \<longrightarrow> singletons ?c" by simp
  have h2: "routes_ok ?c"
    by (simp add: NewNodeGroup_def hop_def)
  have h3: "\<forall>g\<in>set (nodeGroups ?c). \<forall>x n. fst (Group_Next (sim 0) g x) = Inr n \<longrightarrow> node_ok n"
    by (auto simp: sim_def NewNodeGroup_def hop_def)
  show ?thesis
    using resolved_routes_are_singletons [of "[]" ?c "sim 0" w0 ?r ?w] run h1 h2 h3
    by blast
qed

section \<open>No connection is returned together with an error\<close>

lemma retry_never_both:
  assumes shape: "\<And>cn e w w'. f w = (Ret (cn, e), w') \<Longrightarrow> (cn = None) \<noteq> (e = None)"
    and run: "retry f n (None, None) w = (Ret (cn, e), w')"
  shows "cn = None \<or> e = None"
proof (cases n)
  case 0
  then show ?thesis using run by simp
next
  case (Suc k)
  from retry_run [of n f "(None, None)" w] obtain m where
    "fst (retry f n (None, None) w) = attempt_result f (m - 1) w"
    using Suc by auto
  then have "f (after f (m - 1) w) = (Ret (cn, e), snd (f (after f (m - 1) w)))"
    using run by (simp add: attempt_result_def prod_eq_iff)
  from shape [OF this] show ?thesis by auto
qed

lemma Dial_never_both:
  assumes "Dial E c addr w = (Ret (cn, e), w')"
  shows "cn = None \<or> e = None"
proof (cases "IsEmpty c")
  case True
  then show ?thesis
    using assms by (auto simp: Dial_def call_def pair_of_def split: prod.splits sum.splits)
next
  case False
  then obtain ch where c: "c = Some ch" "nodeGroups ch \<noteq> []"
    by (cases c) auto
  have "retry (dial E ch addr) (attempts (Retries ch)) (None, None) w = (Ret (cn, e), w')"
    using assms c by (simp add: Dial_retry del: retry.simps)
  then show ?thesis
    by (rule retry_never_both [rotated]) (erule dial_shape)
qed

lemma Conn_never_both:
  assumes "Conn E c w = (Ret (cn, e), w')"
  shows "cn = None \<or> e = None"
proof (cases c)
  case None
  then show ?thesis using assms by (simp add: Conn_def)
next
  case (Some ch)
  have "retry (Conn_attempt E ch) (attempts (Retries ch)) (None, None) w = (Ret (cn, e), w')"
    using assms Some by (simp add: Conn_retry del: retry.simps)
  then show ?thesis
    by (rule retry_never_both [rotated]) (erule Conn_attempt_shape)
qed

end
